theory Spec2Isabelle
  imports Complex_Main "HOL-Library.Sublist"
begin

section \<open>Python values used by \<^verbatim>\<open>pdfp/operations/tts.py\<close>\<close>

text \<open>
  Exceptions are values. \<open>ZeroDivisionError\<close>, \<open>OverflowError\<close> and \<open>ValueError\<close> are the
  three that the statements of \<^verbatim>\<open>QueueHandler.emit\<close> raise themselves: the division, the
  emission of \<^verbatim>\<open>update_pb\<close> with a value that does not fit its int, and \<^verbatim>\<open>int\<close> on a
  string of more than 4300 digits (the default limit of the interpreter; \<open>ValueError n\<close> is
  raised for \<open>n\<close> digits). These are caught inside the handler, so that their text is
  never formatted; \<open>str\<close> gives an \<open>OverflowError\<close> the text of the division's. Every exception raised by a collaborator (text
  extraction, chunking, file access, gTTS, filename construction, the record formatter) is
  \<open>Exception t\<close>, where \<open>t\<close> is its text \<^verbatim>\<open>str(e)\<close>. Only instances of Python's
  \<^verbatim>\<open>Exception\<close> are modelled: both \<^verbatim>\<open>except\<close> clauses of the file catch exactly that
  class.
\<close>

datatype exn = ZeroDivisionError | OverflowError | ValueError nat | Exception string

subsection \<open>Binary64 arithmetic\<close>

text \<open>
  \<^verbatim>\<open>(progress / total_parts) * 100\<close> is computed in Python floats: the true division of two
  ints is the exact quotient rounded once to the nearest binary64 value (ties to even),
  and the product with 100 is rounded again. A finite float is represented by the
  rational number it denotes.
\<close>

datatype pyfloat = Fin rat | PosInf | NegInf

function bit_length :: "int \<Rightarrow> int" where
  \<comment> \<open>the number of binary digits of a positive integer\<close>
  "bit_length n = (if n \<le> 0 then 0 else bit_length (n div 2) + 1)"
  by pat_completeness auto
termination
  by (relation "measure nat") auto

declare bit_length.simps [simp del]

definition ilog2 :: "rat \<Rightarrow> int" where
  \<comment> \<open>\<open>\<lfloor>log\<^sub>2 x\<rfloor>\<close> for \<open>x > 0\<close>\<close>
  "ilog2 x =
     (if 1 \<le> x then bit_length \<lfloor>x\<rfloor> - 1
      else let b = bit_length \<lfloor>1 / x\<rfloor>
           in if 2 powi (1 - b) \<le> x then 1 - b else - b)"

definition round_half_even :: "rat \<Rightarrow> int" where
  "round_half_even q =
     (let f = \<lfloor>q\<rfloor>; r = q - of_int f
      in if r < 1 / 2 then f else if 1 / 2 < r then f + 1
         else if even f then f else f + 1)"

definition round_double :: "rat \<Rightarrow> rat" where
  \<comment> \<open>nearest multiple of the unit in the last place: 53 significant bits, and the fixed
      spacing \<open>2\<^sup>-\<^sup>1\<^sup>0\<^sup>7\<^sup>4\<close> in the subnormal range\<close>
  "round_double x =
     (if x = 0 then 0
      else let a = \<bar>x\<bar>; u = 2 powi (max (ilog2 a - 52) (- 1074))
           in sgn x * (of_int (round_half_even (a / u)) * u))"

definition true_divide :: "nat \<Rightarrow> nat \<Rightarrow> exn + rat" where
  \<comment> \<open>\<^verbatim>\<open>a / b\<close> on Python ints\<close>
  "true_divide a b =
     (if b = 0 then Inl ZeroDivisionError
      else let q = round_double (of_nat a / of_nat b)
           in if 2 ^ 1024 \<le> q then Inl OverflowError else Inr q)"

definition float_mul :: "rat \<Rightarrow> rat \<Rightarrow> pyfloat" where
  \<comment> \<open>\<^verbatim>\<open>x * y\<close> on finite Python floats: overflow gives an infinity, no exception\<close>
  "float_mul x y =
     (let r = round_double (x * y)
      in if 2 ^ 1024 \<le> r then PosInf else if r \<le> - (2 ^ 1024) then NegInf else Fin r)"

subsection \<open>Strings\<close>

text \<open>
  Strings are lists of 8-bit characters. On that range \<^verbatim>\<open>\d\<close> matches exactly the
  ten characters \<^verbatim>\<open>0\<close> to \<^verbatim>\<open>9\<close>, and \<^verbatim>\<open>str.lower\<close> is needed only to decide whether
  the result ends in \<^verbatim>\<open>.pdf\<close> or \<^verbatim>\<open>.txt\<close>, for which the ASCII letters decide.
\<close>

definition is_digit :: "char \<Rightarrow> bool" where
  "is_digit c = (let n = (of_char c :: nat) in 48 \<le> n \<and> n \<le> 57)"

definition lower_char :: "char \<Rightarrow> char" where
  "lower_char c =
     (case map_of (zip ''ABCDEFGHIJKLMNOPQRSTUVWXYZ'' ''abcdefghijklmnopqrstuvwxyz'') c of
        Some l \<Rightarrow> l
      | None \<Rightarrow> c)"

definition lower :: "string \<Rightarrow> string" where
  "lower s = map lower_char s"

definition endswith :: "string \<Rightarrow> string \<Rightarrow> bool" where
  "endswith s ext = suffix ext s"

definition int_of_digits :: "string \<Rightarrow> nat" where
  \<comment> \<open>the number a string of decimal digits denotes\<close>
  "int_of_digits ds = foldl (\<lambda>a c. 10 * a + (of_char c - 48)) 0 ds"

definition py_int :: "string \<Rightarrow> exn + nat" where
  \<comment> \<open>\<^verbatim>\<open>int(digit_str)\<close> on a string of decimal digits\<close>
  "py_int ds =
     (if 4300 < length ds then Inl (ValueError (length ds)) else Inr (int_of_digits ds))"

fun str_nat :: "nat \<Rightarrow> string" where
  \<comment> \<open>the decimal rendering of a count inside an f-string\<close>
  "str_nat n =
     (if n < 10 then [''0123456789'' ! n]
      else str_nat (n div 10) @ [''0123456789'' ! (n mod 10)])"

declare str_nat.simps [simp del]

fun str :: "exn \<Rightarrow> string" where
  \<comment> \<open>\<^verbatim>\<open>str(e)\<close>\<close>
  "str ZeroDivisionError = ''division by zero''"
| "str OverflowError = ''integer division result too large for a float''"
| "str (ValueError n) =
     ''Exceeds the limit (4300 digits) for integer string conversion: value has '' @ str_nat n @
     '' digits; use sys.set_int_max_str_digits() to increase the limit''"
| "str (Exception t) = t"

text \<open>
  \<^verbatim>\<open>re.search\<close> for a pattern \<^verbatim>\<open>pre(\d+)post\<close> with literal \<open>pre\<close> and \<open>post\<close>: the
  leftmost position at which \<open>pre\<close>, a non-empty maximal run of digits and \<open>post\<close> follow
  one another; the result is group 1. (A shorter run of digits cannot be followed by
  \<open>post\<close> when the maximal one is not, since neither \<open>post\<close> of the file starts with a
  digit.)
\<close>

definition match_at :: "string \<Rightarrow> string \<Rightarrow> string \<Rightarrow> string option" where
  "match_at pre post s =
     (if prefix pre s then
        (let r = drop (length pre) s; ds = takeWhile is_digit r
         in if ds \<noteq> [] \<and> prefix post (dropWhile is_digit r) then Some ds else None)
      else None)"

fun re_search :: "string \<Rightarrow> string \<Rightarrow> string \<Rightarrow> string option" where
  "re_search pre post [] = match_at pre post []"
| "re_search pre post (c # cs) =
     (case match_at pre post (c # cs) of
        Some ds \<Rightarrow> Some ds
      | None \<Rightarrow> re_search pre post cs)"

section \<open>The progress observer\<close>

text \<open>\<^verbatim>\<open>class SharedState\<close>. The initial and the reset value 0 of the percentage is the
  int 0, which equals the float 0.0.\<close>

record shared_state =
  progress :: nat
  total_parts :: nat
  progress_percentage :: pyfloat

definition SharedState :: shared_state where
  "SharedState = \<lparr>progress = 0, total_parts = 0, progress_percentage = Fin 0\<rparr>"

text \<open>The four Qt signals of \<^verbatim>\<open>Converter\<close>, and what a run does that can be observed:
  a signal emitted by \<^verbatim>\<open>convert\<close>, a signal emitted by a \<^verbatim>\<open>QueueHandler\<close>, the
  handler's error path, and a call of a collaborator with its arguments.\<close>

datatype signal =
    OpMsgs string
  | ViewPb bool
  | UpdatePb pyfloat
  | RevisePbLabel string

datatype call =
    CleanText string
  | Mkdir string
  | TtsWordCount string string
  | OpenRead string
  | GTTS string
  | ConstructFilename string string
  | Save string string
  | Remove string

datatype event =
    Emit signal
  | HandlerEmit signal
  | HandleError
  | Call call

text \<open>A log record is what \<^verbatim>\<open>self.format(record)\<close> makes of it: the message, or the
  exception the formatter raises.\<close>

type_synonym log_record = "exn + string"

definition percentage :: "nat \<Rightarrow> nat \<Rightarrow> exn + pyfloat" where
  \<comment> \<open>\<^verbatim>\<open>(progress / total_parts) * 100\<close>\<close>
  "percentage p t =
     (case true_divide p t of Inl e \<Rightarrow> Inl e | Inr q \<Rightarrow> Inr (float_mul q 100))"

text \<open>
  \<^verbatim>\<open>update_pb\<close> is declared as \<^verbatim>\<open>Signal(int)\<close>. Its \<^verbatim>\<open>emit\<close> converts the float it is given to
  a 32-bit C int by truncation and raises \<^verbatim>\<open>OverflowError\<close> when the truncated value does
  not fit, which is the case for a value of \<open>2\<^sup>3\<^sup>1\<close> or more and for an infinity. The call
  at line 60 is inside the \<^verbatim>\<open>try\<close> block of the handler, after the percentage has been
  stored.
\<close>

definition update_pb_emit :: "pyfloat \<Rightarrow> exn + unit" where
  "update_pb_emit v =
     (case v of
        Fin r \<Rightarrow> if - (2 ^ 31) - 1 < r \<and> r < 2 ^ 31 then Inr () else Inl OverflowError
      | PosInf \<Rightarrow> Inl OverflowError
      | NegInf \<Rightarrow> Inl OverflowError)"

definition emit_body :: "log_record \<Rightarrow> shared_state \<Rightarrow> (exn + unit) \<times> shared_state \<times> event list" where
  \<comment> \<open>the \<^verbatim>\<open>try\<close> block of \<^verbatim>\<open>QueueHandler.emit\<close>; the assignments made before an
      exception stay\<close>
  "emit_body record st =
     (case record of
        Inl e \<Rightarrow> (Inl e, st, [])
      | Inr msg \<Rightarrow>
          (case (case re_search ''text_parts: '' [] msg of
                   Some digit_str \<Rightarrow>
                     (case py_int digit_str of
                        Inl e \<Rightarrow> Inl e
                      | Inr v \<Rightarrow> Inr (st\<lparr>total_parts := v\<rparr>))
                 | None \<Rightarrow> Inr st) of
             Inl e \<Rightarrow> (Inl e, st, [])
           | Inr st1 \<Rightarrow>
               (case re_search ''part-'' '' created'' msg of
                  None \<Rightarrow> (Inr (), st1, [])
                | Some _ \<Rightarrow>
                    (let st2 = st1\<lparr>progress := progress st1 + 1\<rparr>
                     in case percentage (progress st2) (total_parts st2) of
                          Inl e \<Rightarrow> (Inl e, st2, [])
                        | Inr pct \<Rightarrow>
                            (let st3 = st2\<lparr>progress_percentage := pct\<rparr>
                             in case update_pb_emit pct of
                                  Inl e \<Rightarrow> (Inl e, st3, [])
                                | Inr _ \<Rightarrow> (Inr (), st3, [HandlerEmit (UpdatePb pct)]))))))"

definition emit :: "log_record \<Rightarrow> shared_state \<Rightarrow> shared_state \<times> event list" where
  \<comment> \<open>\<^verbatim>\<open>QueueHandler.emit\<close>: \<^verbatim>\<open>except Exception: self.handleError(record)\<close>\<close>
  "emit record st =
     (case emit_body record st of
        (Inl e, st', evs) \<Rightarrow> (st', evs @ [HandleError])
      | (Inr _, st', evs) \<Rightarrow> (st', evs))"

fun emit_stream :: "log_record list \<Rightarrow> shared_state \<Rightarrow> shared_state \<times> event list" where
  \<comment> \<open>one handler receiving a sequence of records\<close>
  "emit_stream [] st = (st, [])"
| "emit_stream (r # rs) st =
     (let (st1, evs1) = emit r st; (st2, evs2) = emit_stream rs st1
      in (st2, evs1 @ evs2))"

section \<open>The conversion orchestrator\<close>

text \<open>
  The collaborators of \<^verbatim>\<open>Converter.convert\<close> are parameters. Each one reads and changes
  an outside world \<open>'w\<close> (the file system, the network, the settings window) and either
  returns a value or raises. The gTTS constructor and \<^verbatim>\<open>tts.save\<close> also log records on
  the logger \<^verbatim>\<open>gtts.tts\<close> while they run; a tts object is represented by the text it was
  built from, and \<^verbatim>\<open>tts_word_count\<close> is always called with \<^verbatim>\<open>True\<close> as its third
  argument. \<^verbatim>\<open>os.path.join\<close> is a function of its arguments, \<^verbatim>\<open>QDir.currentPath\<close>,
  \<^verbatim>\<open>os.path.isdir\<close> and \<^verbatim>\<open>isChecked\<close> read the world and do not raise.

  Not modelled, and taken not to raise: \<^verbatim>\<open>SettingsWindow.instance()\<close> and the set-up of
  the logger before the \<^verbatim>\<open>try\<close> block, \<^verbatim>\<open>QApplication.processEvents()\<close>, and what the
  receivers of a signal do with it (an event records the value given to \<^verbatim>\<open>emit\<close>; the
  values \<^verbatim>\<open>convert\<close> itself emits fit their signals).
\<close>

record 'w externals =
  isChecked :: "'w \<Rightarrow> bool"
  currentPath :: "'w \<Rightarrow> string"
  path_join :: "string \<Rightarrow> string \<Rightarrow> string"
  isdir :: "string \<Rightarrow> 'w \<Rightarrow> bool"
  mkdir :: "string \<Rightarrow> 'w \<Rightarrow> (exn + unit) \<times> 'w"
  clean_text :: "string \<Rightarrow> 'w \<Rightarrow> (exn + string) \<times> 'w"
  tts_word_count :: "string \<Rightarrow> string \<Rightarrow> 'w \<Rightarrow> (exn + string list) \<times> 'w"
  open_read :: "string \<Rightarrow> 'w \<Rightarrow> (exn + string) \<times> 'w"
  gTTS :: "string \<Rightarrow> 'w \<Rightarrow> (log_record list \<times> (exn + unit)) \<times> 'w"
  construct_filename :: "string \<Rightarrow> string \<Rightarrow> 'w \<Rightarrow> (exn + string) \<times> 'w"
  save :: "string \<Rightarrow> string \<Rightarrow> 'w \<Rightarrow> (log_record list \<times> (exn + unit)) \<times> 'w"
  remove :: "string \<Rightarrow> 'w \<Rightarrow> (exn + unit) \<times> 'w"

text \<open>
  The state of a run: the world, the shared states of the handlers attached to the logger
  (\<^verbatim>\<open>convert\<close> adds one on every call and removes none; the last one belongs to the
  running call and is the object its local variable \<^verbatim>\<open>shared_state\<close> refers to), and
  the events so far.
\<close>

record 'w state =
  world :: 'w
  handlers :: "shared_state list"
  trace :: "event list"

type_synonym ('w, 'a) run = "'w state \<Rightarrow> (exn + 'a) \<times> 'w state"

definition return :: "'a \<Rightarrow> ('w, 'a) run" where
  "return x s = (Inr x, s)"

definition bind :: "('w, 'a) run \<Rightarrow> ('a \<Rightarrow> ('w, 'b) run) \<Rightarrow> ('w, 'b) run" where
  \<comment> \<open>one statement after another: an exception skips what follows\<close>
  "bind m f s = (case m s of (Inl e, s') \<Rightarrow> (Inl e, s') | (Inr x, s') \<Rightarrow> f x s')"

definition catch :: "('w, 'a) run \<Rightarrow> (exn \<Rightarrow> ('w, 'a) run) \<Rightarrow> ('w, 'a) run" where
  \<comment> \<open>\<^verbatim>\<open>try: m except Exception as e: h\<close>\<close>
  "catch m h s = (case m s of (Inl e, s') \<Rightarrow> h e s' | (Inr x, s') \<Rightarrow> (Inr x, s'))"

definition emit_signal :: "signal \<Rightarrow> ('w, unit) run" where
  "emit_signal sg s = (Inr (), s\<lparr>trace := trace s @ [Emit sg]\<rparr>)"

definition external :: "call \<Rightarrow> ('w \<Rightarrow> (exn + 'a) \<times> 'w) \<Rightarrow> ('w, 'a) run" where
  "external c f s =
     (let (r, w) = f (world s) in (r, s\<lparr>world := w, trace := trace s @ [Call c]\<rparr>))"

fun callHandlers :: "log_record \<Rightarrow> shared_state list \<Rightarrow> shared_state list \<times> event list" where
  \<comment> \<open>a record goes to every attached handler, in the order of attachment\<close>
  "callHandlers r [] = ([], [])"
| "callHandlers r (h # hs) =
     (let (h', evs1) = emit r h; (hs', evs2) = callHandlers r hs
      in (h' # hs', evs1 @ evs2))"

fun log_records :: "log_record list \<Rightarrow> shared_state list \<Rightarrow> shared_state list \<times> event list" where
  "log_records [] hs = (hs, [])"
| "log_records (r # rs) hs =
     (let (hs1, evs1) = callHandlers r hs; (hs2, evs2) = log_records rs hs1
      in (hs2, evs1 @ evs2))"

definition logging_external ::
  "call \<Rightarrow> ('w \<Rightarrow> (log_record list \<times> (exn + 'a)) \<times> 'w) \<Rightarrow> ('w, 'a) run" where
  \<comment> \<open>a call of gTTS: the handlers run on every record it logs before it returns or
      raises\<close>
  "logging_external c f s =
     (let ((recs, r), w) = f (world s);
          (hs, evs) = log_records recs (handlers s)
      in (r, s\<lparr>world := w, handlers := hs, trace := trace s @ Call c # evs\<rparr>))"

definition addHandler :: "('w, unit) run" where
  \<comment> \<open>\<^verbatim>\<open>shared_state = SharedState()\<close> and \<^verbatim>\<open>logger.addHandler(handler)\<close>\<close>
  "addHandler s = (Inr (), s\<lparr>handlers := handlers s @ [SharedState]\<rparr>)"

definition reset_shared_state :: "('w, unit) run" where
  \<comment> \<open>the three assignments of lines 110 to 112, on the running call's shared state, the
      last of the list (which is not empty once \<open>addHandler\<close> has run)\<close>
  "reset_shared_state s =
     (Inr (), s\<lparr>handlers := butlast (handlers s) @
        [\<lparr>progress = 0, total_parts = 0, progress_percentage = Fin 0\<rparr>]\<rparr>)"

definition get_temp_dir :: "'w externals \<Rightarrow> ('w, string) run" where
  "get_temp_dir ext s =
     (let project_root = currentPath ext (world s);
          temp_directory = path_join ext project_root ''temp''
      in if \<not> isdir ext temp_directory (world s)
         then bind (external (Mkdir temp_directory) (mkdir ext temp_directory))
                (\<lambda>_. return temp_directory) s
         else return temp_directory s)"

definition loop_body :: "'w externals \<Rightarrow> string \<Rightarrow> nat \<Rightarrow> nat \<Rightarrow> string \<Rightarrow> ('w, unit) run" where
  \<comment> \<open>lines 101 to 113, for the value \<open>count\<close> has after line 100\<close>
  "loop_body ext pdf output_count count output_path =
     bind (emit_signal (RevisePbLabel
             (''TTS Progress ('' @ str_nat count @ ''/'' @ str_nat output_count @ ''):''))) (\<lambda>_.
     bind (external (OpenRead output_path) (open_read ext output_path)) (\<lambda>text.
     bind (logging_external (GTTS text) (gTTS ext text)) (\<lambda>_.
     bind (external (ConstructFilename pdf ''tts_ps'') (construct_filename ext pdf ''tts_ps''))
       (\<lambda>output_file.
     bind (logging_external (Save text output_file) (save ext text output_file)) (\<lambda>_.
     bind (emit_signal (OpMsgs
             (''Conversion '' @ str_nat count @ ''/'' @ str_nat output_count @
              '' complete. Output: '' @ output_file))) (\<lambda>_.
     bind (emit_signal (UpdatePb (Fin 0))) (\<lambda>_.
     bind reset_shared_state (\<lambda>_.
     external (Remove output_path) (remove ext output_path)))))))))"

fun for_output_paths ::
  "'w externals \<Rightarrow> string \<Rightarrow> nat \<Rightarrow> nat \<Rightarrow> string list \<Rightarrow> ('w, unit) run" where
  \<comment> \<open>the \<^verbatim>\<open>for\<close> loop, entered with \<open>count\<close> chunks done\<close>
  "for_output_paths ext pdf output_count count [] s = (Inr (), s)"
| "for_output_paths ext pdf output_count count (output_path # rest) s =
     (case loop_body ext pdf output_count (count + 1) output_path s of
        (Inl e, s') \<Rightarrow> (Inl e, s')
      | (Inr _, s') \<Rightarrow> for_output_paths ext pdf output_count (count + 1) rest s')"

definition try_body :: "'w externals \<Rightarrow> string \<Rightarrow> ('w, unit) run" where
  \<comment> \<open>lines 93 to 118\<close>
  "try_body ext pdf =
     bind (external (CleanText pdf) (clean_text ext pdf)) (\<lambda>text s.
       if isChecked ext (world s) then
         bind (get_temp_dir ext) (\<lambda>temp_dir.
         bind (return (path_join ext temp_dir ''tts-tempfile.txt'')) (\<lambda>temp_file.
         bind (external (TtsWordCount text temp_file) (tts_word_count ext text temp_file))
           (\<lambda>output_paths.
         for_output_paths ext pdf (length output_paths) 0 output_paths))) s
       else
         bind (logging_external (GTTS text) (gTTS ext text)) (\<lambda>_.
         bind (external (ConstructFilename pdf ''tts_ps'') (construct_filename ext pdf ''tts_ps''))
           (\<lambda>output_file.
         bind (logging_external (Save text output_file) (save ext text output_file)) (\<lambda>_.
         emit_signal (OpMsgs (''Conversion complete. Output: '' @ output_file))))) s)"

definition error_msg :: "string \<Rightarrow> exn \<Rightarrow> string" where
  "error_msg pdf e = ''Error converting '' @ pdf @ '': '' @ str e"

definition convert :: "'w externals \<Rightarrow> string \<Rightarrow> ('w, unit) run" where
  "convert ext pdf =
     (if \<not> list_ex (\<lambda>e. endswith (lower pdf) e) [''.pdf'', ''.txt'']
      then emit_signal (OpMsgs ''Cannot TTS. Filetype is not TXT or PDF.'')
      else
        bind (emit_signal (OpMsgs (''Converting '' @ pdf))) (\<lambda>_.
        bind addHandler (\<lambda>_.
        bind (emit_signal (RevisePbLabel ''TTS Progress:'')) (\<lambda>_.
        bind (emit_signal (ViewPb True)) (\<lambda>_.
        bind (catch (try_body ext pdf) (\<lambda>e. emit_signal (OpMsgs (error_msg pdf e)))) (\<lambda>_.
        emit_signal (ViewPb False)))))))"

section \<open>Notions of the specification\<close>

text \<open>A name ends in an extension case-insensitively when its last characters, as many
  as the extension has, equal the extension's up to the case of letters.\<close>

definition ends_with_ci :: "string \<Rightarrow> string \<Rightarrow> bool" where
  "ends_with_ci name e =
     (length e \<le> length name \<and>
      map lower_char (drop (length name - length e) name) = map lower_char e)"

definition supported :: "string \<Rightarrow> bool" where
  "supported name = (ends_with_ci name ''.pdf'' \<or> ends_with_ci name ''.txt'')"

text \<open>What belongs to the orchestrator in a trace: everything but what the handlers do.\<close>

fun by_handler :: "event \<Rightarrow> bool" where
  "by_handler (HandlerEmit _) = True"
| "by_handler HandleError = True"
| "by_handler _ = False"

definition orchestrated :: "event list \<Rightarrow> event list" where
  "orchestrated evs = filter (\<lambda>e. \<not> by_handler e) evs"

fun is_error_message :: "event \<Rightarrow> bool" where
  "is_error_message (Emit (OpMsgs m)) = prefix ''Error converting '' m"
| "is_error_message _ = False"

fun is_synthesis :: "event \<Rightarrow> bool" where
  "is_synthesis (Call (Save _ _)) = True"
| "is_synthesis _ = False"

text \<open>An event is quiet for a source path when it is neither an error message nor a
  filename construction from anything but that path and the tag \<^verbatim>\<open>tts_ps\<close>.\<close>

fun quiet :: "string \<Rightarrow> event \<Rightarrow> bool" where
  "quiet pdf (Emit (OpMsgs m)) = (\<not> prefix ''Error converting '' m)"
| "quiet pdf (Call (ConstructFilename a b)) = (a = pdf \<and> b = ''tts_ps'')"
| "quiet pdf _ = True"

fun is_call :: "event \<Rightarrow> bool" where
  "is_call (Call _) = True"
| "is_call _ = False"

fun constructed :: "event \<Rightarrow> (string \<times> string) list" where
  "constructed (Call (ConstructFilename a b)) = [(a, b)]"
| "constructed _ = []"

definition constructions :: "event list \<Rightarrow> (string \<times> string) list" where
  \<comment> \<open>the argument pairs given to \<^verbatim>\<open>construct_filename\<close>, in order\<close>
  "constructions evs = concat (map constructed evs)"

fun removed :: "event \<Rightarrow> string list" where
  "removed (Call (Remove p)) = [p]"
| "removed _ = []"

definition removals :: "event list \<Rightarrow> string list" where
  \<comment> \<open>the paths given to \<^verbatim>\<open>os.remove\<close>, in order\<close>
  "removals evs = concat (map removed evs)"

text \<open>The state in which the \<^verbatim>\<open>try\<close> block of a validated run is entered: after the
  message of line 81, the new handler with its fresh shared state, the label and the
  signal that shows the progress bar.\<close>

definition entered :: "string \<Rightarrow> 'w state \<Rightarrow> 'w state" where
  "entered pdf s =
     s\<lparr>handlers := handlers s @ [SharedState],
       trace := trace s @ [Emit (OpMsgs (''Converting '' @ pdf)),
                           Emit (RevisePbLabel ''TTS Progress:''),
                           Emit (ViewPb True)]\<rparr>"

text \<open>The events of one chunk that completes, and of a sequence of them: each chunk is
  given by its path, the text read from it and the output file constructed for it.\<close>

definition chunk_events :: "string \<Rightarrow> nat \<Rightarrow> nat \<Rightarrow> string \<times> string \<times> string \<Rightarrow> event list" where
  "chunk_events pdf n i c =
     (case c of (output_path, text, output_file) \<Rightarrow>
       [Emit (RevisePbLabel (''TTS Progress ('' @ str_nat i @ ''/'' @ str_nat n @ ''):'')),
        Call (OpenRead output_path),
        Call (GTTS text),
        Call (ConstructFilename pdf ''tts_ps''),
        Call (Save text output_file),
        Emit (OpMsgs (''Conversion '' @ str_nat i @ ''/'' @ str_nat n @
                      '' complete. Output: '' @ output_file)),
        Emit (UpdatePb (Fin 0)),
        Call (Remove output_path)])"

fun chunks_events :: "string \<Rightarrow> nat \<Rightarrow> nat \<Rightarrow> (string \<times> string \<times> string) list \<Rightarrow> event list" where
  "chunks_events pdf n i [] = []"
| "chunks_events pdf n i (c # cs) = chunk_events pdf n (i + 1) c @ chunks_events pdf n (i + 1) cs"

section \<open>A concrete set of collaborators\<close>

text \<open>
  Collaborators without a world of their own, for running the model: extraction fails on
  \<^verbatim>\<open>broken.pdf\<close>, the chunker returns two chunk files, a chunk file holds its own path
  as text, \<^verbatim>\<open>save\<close> logs what gTTS logs for a text of two parts and, when \<open>failing\<close>, raises
  on every text but that of the first chunk.
\<close>

definition stub :: "bool \<Rightarrow> bool \<Rightarrow> unit externals" where
  "stub split failing =
     \<lparr>isChecked = (\<lambda>_. split),
      currentPath = (\<lambda>_. ''/pdfp''),
      path_join = (\<lambda>a b. a @ ''/'' @ b),
      isdir = (\<lambda>_ _. True),
      mkdir = (\<lambda>_ w. (Inr (), w)),
      clean_text = (\<lambda>p w. (if p = ''broken.pdf'' then Inl (Exception ''cannot open'')
                              else Inr ''some text'', w)),
      tts_word_count = (\<lambda>_ _ w. (Inr [''c1'', ''c2''], w)),
      open_read = (\<lambda>p w. (Inr p, w)),
      gTTS = (\<lambda>_ w. (([], Inr ()), w)),
      construct_filename = (\<lambda>p t w. (Inr (p @ ''.'' @ t), w)),
      save = (\<lambda>t _ w.
                (([Inr ''text_parts: 2'', Inr ''part-0 created'', Inr ''part-1 created''],
                  if failing \<and> t \<noteq> ''c1'' then Inl (Exception ''no connection'') else Inr ()), w)),
      remove = (\<lambda>_ w. (Inr (), w))\<rparr>"

definition start :: "unit state" where
  "start = \<lparr>world = (), handlers = [], trace = []\<rparr>"

section \<open>Validation\<close>

lemma suffix_iff_drop:
  "suffix ys xs \<longleftrightarrow> length ys \<le> length xs \<and> drop (length xs - length ys) xs = ys"
proof
  assume "suffix ys xs"
  then obtain zs where "xs = zs @ ys" by (auto simp: suffix_def)
  then show "length ys \<le> length xs \<and> drop (length xs - length ys) xs = ys" by simp
next
  assume h: "length ys \<le> length xs \<and> drop (length xs - length ys) xs = ys"
  have "xs = take (length xs - length ys) xs @ drop (length xs - length ys) xs" by simp
  with h have "xs = take (length xs - length ys) xs @ ys" by simp
  then show "suffix ys xs" by (rule suffixI)
qed

lemma endswith_lower_iff: "endswith (lower name) (map lower_char e) = ends_with_ci name e"
  by (simp add: endswith_def lower_def ends_with_ci_def suffix_iff_drop drop_map)

lemma validated_iff: "list_ex (\<lambda>e. endswith (lower pdf) e) [''.pdf'', ''.txt''] = supported pdf"
proof -
  have a: "endswith (lower pdf) ''.pdf'' = ends_with_ci pdf ''.pdf''"
    using endswith_lower_iff[of pdf "''.pdf''"] by (simp add: lower_char_def)
  have b: "endswith (lower pdf) ''.txt'' = ends_with_ci pdf ''.txt''"
    using endswith_lower_iff[of pdf "''.txt''"] by (simp add: lower_char_def)
  show ?thesis by (simp add: supported_def a b)
qed

text \<open>
  Claim C6. A source path whose name does not end, case-insensitively, in \<^verbatim>\<open>.pdf\<close> or
  \<^verbatim>\<open>.txt\<close> is rejected before extraction: the run returns at once, the only event is the
  message \<^verbatim>\<open>Cannot TTS. Filetype is not TXT or PDF.\<close>, which contains
  \<^verbatim>\<open>is not TXT or PDF\<close>; no collaborator is called, so nothing is extracted, synthesised
  or written, and the world and the handlers are as before.
\<close>

theorem unsupported_rejected:
  assumes "\<not> supported pdf"
  shows "convert ext pdf s =
           (Inr (), s\<lparr>trace := trace s @ [Emit (OpMsgs ''Cannot TTS. Filetype is not TXT or PDF.'')]\<rparr>)
         \<and> sublist ''is not TXT or PDF'' ''Cannot TTS. Filetype is not TXT or PDF.''"
proof -
  have "''Cannot TTS. Filetype is not TXT or PDF.'' = ''Cannot TTS. Filetype '' @ ''is not TXT or PDF'' @ ''.''"
    by simp
  then have "sublist ''is not TXT or PDF'' ''Cannot TTS. Filetype is not TXT or PDF.''"
    unfolding sublist_def by blast
  moreover have "convert ext pdf s =
           (Inr (), s\<lparr>trace := trace s @ [Emit (OpMsgs ''Cannot TTS. Filetype is not TXT or PDF.'')]\<rparr>)"
    using assms validated_iff[of pdf] by (simp add: convert_def emit_signal_def)
  ultimately show ?thesis by simp
qed

text \<open>The name \<^verbatim>\<open>report.docx\<close> is such a path.\<close>

lemma docx: "\<not> supported ''report.docx''"
  by (simp add: supported_def ends_with_ci_def lower_char_def)

theorem unsupported_rejected_witness:
  "\<not> supported ''report.docx'' \<and>
   convert (stub True False) ''report.docx'' start =
     (Inr (), \<lparr>world = (), handlers = [], trace = [Emit (OpMsgs ''Cannot TTS. Filetype is not TXT or PDF.'')]\<rparr>)"
  using unsupported_rejected[of "''report.docx''" "stub True False" start] docx
  by (simp add: start_def)

section \<open>Properties of the binary64 rounding\<close>

lemma bit_length_nonpos: "n \<le> 0 \<Longrightarrow> bit_length n = 0"
  by (subst bit_length.simps) simp

lemma bit_length_pos: "0 < n \<Longrightarrow> bit_length n = bit_length (n div 2) + 1"
  by (subst bit_length.simps) simp

lemma bit_length_bounds:
  "0 < n \<Longrightarrow> 0 < bit_length n \<and> 2 ^ nat (bit_length n - 1) \<le> n \<and> n < 2 ^ nat (bit_length n)"
proof (induction n rule: bit_length.induct)
  case (1 n)
  show ?case
  proof (cases "n = 1")
    case True
    have "bit_length 1 = 1" by (simp add: bit_length_pos bit_length_nonpos)
    with True show ?thesis by simp
  next
    case False
    with "1.prems" have m: "0 < n div 2" by simp
    have n: "\<not> n \<le> 0" using "1.prems" by simp
    from "1.IH"[OF n m] have ih: "0 < bit_length (n div 2)"
      "2 ^ nat (bit_length (n div 2) - 1) \<le> n div 2" "n div 2 < 2 ^ nat (bit_length (n div 2))"
      by simp_all
    have bl: "bit_length n = bit_length (n div 2) + 1"
      using "1.prems" by (rule bit_length_pos)
    define k where "k = nat (bit_length (n div 2) - 1)"
    have k1: "nat (bit_length (n div 2)) = Suc k" using ih(1) by (simp add: k_def)
    have k2: "nat (bit_length n - 1) = Suc k" using ih(1) bl by (simp add: k_def)
    have k3: "nat (bit_length n) = Suc (Suc k)" using ih(1) bl by (simp add: k_def)
    have a: "(2::int) ^ k \<le> n div 2" using ih(2) by (simp add: k_def)
    have b: "n div 2 < (2::int) ^ Suc k" using ih(3) k1 by simp
    have "2 * (n div 2) \<le> n" "n < 2 * (n div 2) + 2" by presburger+
    with a b have "(2::int) ^ Suc k \<le> n" "n < 2 ^ Suc (Suc k)" by simp_all
    then show ?thesis using k2 k3 bl ih(1) by simp
  qed
qed

lemma powi_neg_nat: "(2::rat) powi (- int n) = 1 / 2 ^ n"
  by (simp add: power_int_minus_divide)

lemma ilog2_bounds:
  assumes "0 < x"
  shows "2 powi (ilog2 x) \<le> x \<and> x < 2 powi (ilog2 x + 1)"
proof (cases "1 \<le> x")
  case True
  define m where "m = \<lfloor>x\<rfloor>"
  define k where "k = nat (bit_length m - 1)"
  have m1: "0 < m" using True by (simp add: m_def)
  from bit_length_bounds[OF m1] have b: "0 < bit_length m"
    "2 ^ nat (bit_length m - 1) \<le> m" "m < 2 ^ nat (bit_length m)" by simp_all
  have kb: "bit_length m = int k + 1" using b(1) by (simp add: k_def)
  have i: "ilog2 x = int k" using True by (simp add: ilog2_def m_def[symmetric] kb)
  have "(2::int) ^ k \<le> m" using b(2) by (simp add: k_def)
  then have "(2::rat) ^ k \<le> of_int m" by (simp only: numeral_power_le_of_int_cancel_iff)
  moreover have "of_int m \<le> x" by (simp add: m_def)
  ultimately have lo: "(2::rat) ^ k \<le> x" by (rule order_trans)
  have "m + 1 \<le> 2 ^ Suc k" using b(3) kb by (simp add: nat_add_distrib)
  then have "(of_int (m + 1) :: rat) \<le> 2 ^ Suc k" by (simp only: of_int_le_numeral_power_cancel_iff)
  moreover have "x < of_int (m + 1)" unfolding m_def using floor_correct[of x] by blast
  ultimately have hi: "x < (2::rat) ^ Suc k" by (simp only: less_le_trans)
  have "(2::rat) powi (int k + 1) = 2 ^ Suc k"
    by (simp add: power_int_add)
  with lo hi i show ?thesis by simp
next
  case False
  define m where "m = \<lfloor>1 / x\<rfloor>"
  define k where "k = nat (bit_length m - 1)"
  have y1: "1 < 1 / x" using False assms by simp
  then have m1: "0 < m" by (simp add: m_def)
  from bit_length_bounds[OF m1] have b: "0 < bit_length m"
    "2 ^ nat (bit_length m - 1) \<le> m" "m < 2 ^ nat (bit_length m)" by simp_all
  have kb: "bit_length m = int k + 1" using b(1) by (simp add: k_def)
  have "(2::int) ^ k \<le> m" using b(2) by (simp add: k_def)
  then have "(2::rat) ^ k \<le> of_int m" by (simp only: numeral_power_le_of_int_cancel_iff)
  moreover have "of_int m \<le> 1 / x" by (simp add: m_def)
  ultimately have "(2::rat) ^ k \<le> 1 / x" by (rule order_trans)
  then have up: "x \<le> 1 / 2 ^ k" using assms by (simp add: field_simps)
  have "m + 1 \<le> 2 ^ Suc k" using b(3) kb by (simp add: nat_add_distrib)
  then have "(of_int (m + 1) :: rat) \<le> 2 ^ Suc k" by (simp only: of_int_le_numeral_power_cancel_iff)
  moreover have "1 / x < of_int (m + 1)" unfolding m_def using floor_correct[of "1 / x"] by blast
  ultimately have "1 / x < (2::rat) ^ Suc k" by (simp only: less_le_trans)
  then have dn: "1 / 2 ^ Suc k < x" using assms by (simp add: field_simps)
  have "1 - bit_length m = - int k" using kb by simp
  then have p1: "(2::rat) powi (1 - bit_length m) = 1 / 2 ^ k"
    by (simp only: powi_neg_nat)
  have "- bit_length m = - int (Suc k)" using kb by simp
  then have p2: "(2::rat) powi (- bit_length m) = 1 / 2 ^ Suc k"
    by (simp only: powi_neg_nat)
  have "- bit_length m + 1 = - int k" using kb by simp
  then have p3: "(2::rat) powi (- bit_length m + 1) = 1 / 2 ^ k"
    by (simp only: powi_neg_nat)
  have "(2::rat) powi (1 + (- int k)) = 2 powi 1 * 2 powi (- int k)"
    by (rule power_int_add) simp
  then have "(2::rat) powi (1 + (- int k)) = 2 / 2 ^ k"
    by (simp only: powi_neg_nat) simp
  moreover have "1 - bit_length m + 1 = 1 + (- int k)" using kb by simp
  ultimately have p4: "(2::rat) powi (1 - bit_length m + 1) = 2 / 2 ^ k"
    by (simp only:)
  show ?thesis
  proof (cases "2 powi (1 - bit_length m) \<le> x")
    case True
    then have i: "ilog2 x = 1 - bit_length m"
      using False by (simp add: ilog2_def m_def[symmetric])
    have "(1::rat) / 2 ^ k < 2 / 2 ^ k" by (simp add: divide_strict_right_mono)
    with up have "x < 2 / 2 ^ k" by (rule le_less_trans)
    with True i p4 show ?thesis by simp
  next
    case F2: False
    then have i: "ilog2 x = - bit_length m"
      using False by (simp add: ilog2_def m_def[symmetric])
    from F2 p1 have "x < 1 / 2 ^ k" by simp
    with dn i p2 p3 show ?thesis by simp
  qed
qed

lemma ilog2_unique:
  assumes "0 < x" "2 powi e \<le> x" "x < 2 powi (e + 1)"
  shows "ilog2 x = e"
proof -
  from ilog2_bounds[OF assms(1)]
  have b: "2 powi (ilog2 x) \<le> x" "x < 2 powi (ilog2 x + 1)" by simp_all
  have "\<not> e + 1 \<le> ilog2 x"
  proof
    assume "e + 1 \<le> ilog2 x"
    then have "(2::rat) powi (e + 1) \<le> 2 powi (ilog2 x)" by (rule power_int_increasing) simp
    with b(1) assms(3) show False by simp
  qed
  moreover have "\<not> ilog2 x + 1 \<le> e"
  proof
    assume "ilog2 x + 1 \<le> e"
    then have "(2::rat) powi (ilog2 x + 1) \<le> 2 powi e" by (rule power_int_increasing) simp
    with b(2) assms(2) show False by simp
  qed
  ultimately show ?thesis by simp
qed

lemma round_half_even_error: "\<bar>of_int (round_half_even q) - q\<bar> \<le> 1 / 2"
proof -
  have "of_int \<lfloor>q\<rfloor> \<le> q" "q < of_int \<lfloor>q\<rfloor> + 1" by linarith+
  then show ?thesis by (auto simp: round_half_even_def Let_def)
qed

lemma round_double_normal:
  assumes "0 < x" "2 powi e \<le> x" "x < 2 powi (e + 1)" "- 1022 \<le> e"
  shows "round_double x = of_int (round_half_even (x / 2 powi (e - 52))) * 2 powi (e - 52)"
proof -
  have "ilog2 x = e" using assms(1-3) by (rule ilog2_unique)
  moreover have "max (e - 52) (- 1074) = e - 52" using assms(4) by simp
  ultimately show ?thesis using assms(1) by (simp add: round_double_def Let_def)
qed

lemma round_double_error:
  assumes "0 < x" "2 powi (- 1022) \<le> x"
  shows "\<bar>round_double x - x\<bar> \<le> x / 2 ^ 53"
proof -
  define e where "e = ilog2 x"
  define u where "u = (2::rat) powi (e - 52)"
  from ilog2_bounds[OF assms(1)]
  have b: "2 powi e \<le> x" "x < 2 powi (e + 1)" by (simp_all add: e_def)
  have "\<not> e + 1 \<le> - 1022"
  proof
    assume "e + 1 \<le> - 1022"
    then have "(2::rat) powi (e + 1) \<le> 2 powi (- 1022)" by (rule power_int_increasing) simp
    with b(2) assms(2) show False by simp
  qed
  then have e: "- 1022 \<le> e" by simp
  have rd: "round_double x = of_int (round_half_even (x / u)) * u"
    unfolding u_def using assms(1) b e by (rule round_double_normal)
  have u: "0 < u" by (simp add: u_def)
  have "\<bar>of_int (round_half_even (x / u)) - x / u\<bar> * u \<le> 1 / 2 * u"
    using round_half_even_error[of "x / u"] u by (simp only: mult_right_mono less_imp_le)
  moreover have "\<bar>of_int (round_half_even (x / u)) - x / u\<bar> * u
                 = \<bar>of_int (round_half_even (x / u)) * u - x\<bar>"
  proof -
    have "(of_int (round_half_even (x / u)) - x / u) * u = of_int (round_half_even (x / u)) * u - x"
      using u by (simp add: field_simps)
    moreover have "\<bar>of_int (round_half_even (x / u)) - x / u\<bar> * u
          = \<bar>(of_int (round_half_even (x / u)) - x / u) * u\<bar>"
      using u by (simp add: abs_mult)
    ultimately show ?thesis by (simp only:)
  qed
  ultimately have 1: "\<bar>round_double x - x\<bar> \<le> u / 2" by (simp add: rd)
  have "u = 2 powi e / 2 powi 52" unfolding u_def by (rule power_int_diff) simp
  then have "u / 2 = 2 powi e / 2 ^ 53" by simp
  also have "\<dots> \<le> x / 2 ^ 53" using b(1) by (simp add: divide_right_mono)
  finally show ?thesis using 1 by simp
qed

lemma percentage_zero: "0 < t \<Longrightarrow> percentage 0 t = Inr (Fin 0)"
  by (simp add: percentage_def true_divide_def float_mul_def round_double_def)

lemma percentage_error:
  assumes "0 < c" "c \<le> t" "t \<le> 2 ^ 1022"
  shows "\<exists>r. percentage c t = Inr (Fin r) \<and>
             \<bar>r - 100 * of_nat c / of_nat t\<bar> \<le> (100 * of_nat c / of_nat t) / 2 ^ 51"
proof -
  define x :: rat where "x = of_nat c / of_nat t"
  define q where "q = round_double x"
  define y where "y = q * 100"
  define r where "r = round_double y"
  define d where "d = x / 2 ^ 53"
  have t0: "0 < t" using assms by simp
  have ct: "(of_nat c :: rat) \<le> of_nat t" "(1::rat) \<le> of_nat c" "(0::rat) < of_nat t"
    using assms by simp_all
  have "(of_nat t :: rat) \<le> of_nat (2 ^ 1022)" using assms(3) by (simp only: of_nat_le_iff)
  then have t2: "(of_nat t :: rat) \<le> 2 ^ 1022" by simp
  have x0: "0 < x" using assms t0 by (simp add: x_def)
  have x1: "x \<le> 1" using ct by (simp add: x_def)
  have "1 / (2::rat) ^ 1022 \<le> 1 / of_nat t" using t2 ct(3) by (simp add: frac_le)
  also have "\<dots> \<le> x" unfolding x_def using ct by (simp add: divide_right_mono)
  finally have "1 / (2::rat) ^ 1022 \<le> x" .
  moreover have "(2::rat) powi (- 1022) = 1 / 2 ^ 1022" by (simp add: power_int_minus_divide)
  ultimately have xn: "2 powi (- 1022) \<le> x" by (simp only:)
  have d0: "0 < d" "1000 * d \<le> x" using x0 by (simp_all add: d_def)
  have "\<bar>q - x\<bar> \<le> d" unfolding q_def d_def using x0 xn by (rule round_double_error)
  then have eq: "q - x \<le> d" "x - q \<le> d" by linarith+
  have q2: "q \<le> 2" using eq d0 x1 by linarith
  have td: "true_divide c t = Inr q"
    using t0 q2 by (simp add: true_divide_def x_def[symmetric] q_def[symmetric] Let_def)
  have y0: "0 < y" "x \<le> y" "y \<le> 100 * x + 100 * d" "y \<le> 200" "100 * x - 100 * d \<le> y"
    using q2 x0 eq d0 by (simp_all add: y_def)
  have yn: "2 powi (- 1022) \<le> y" using xn y0(2) by (rule order_trans)
  have "y / 2 ^ 53 \<le> (100 * x + 100 * d) / 2 ^ 53" using y0(3) by (simp add: divide_right_mono)
  also have "\<dots> = 100 * d + 100 * (d / 2 ^ 53)" by (simp add: d_def add_divide_distrib)
  also have "\<dots> \<le> 100 * d + 100 * d" using d0(1) by simp
  finally have yd: "y / 2 ^ 53 \<le> 200 * d" by simp
  have "\<bar>r - y\<bar> \<le> y / 2 ^ 53" unfolding r_def using y0(1) yn by (rule round_double_error)
  then have "\<bar>r - y\<bar> \<le> 200 * d" using yd by (rule order_trans)
  then have er: "r - y \<le> 200 * d" "y - r \<le> 200 * d" by linarith+
  have r2: "0 \<le> r" "r \<le> 400" using er y0 d0 x1 by linarith+
  have fm: "float_mul q 100 = Fin r"
    using r2 by (simp add: float_mul_def y_def[symmetric] r_def[symmetric] Let_def)
  have "r - 100 * x \<le> 400 * d" "100 * x - r \<le> 400 * d" using er y0 d0 by linarith+
  then have "\<bar>r - 100 * x\<bar> \<le> 400 * d" by linarith
  moreover have "400 * d = (100 * x) / 2 ^ 51" by (simp add: d_def)
  ultimately have "\<bar>r - 100 * x\<bar> \<le> (100 * x) / 2 ^ 51" by (simp only:)
  then have "\<bar>r - 100 * of_nat c / of_nat t\<bar> \<le> (100 * of_nat c / of_nat t) / 2 ^ 51"
    by (simp add: x_def)
  moreover have "percentage c t = Inr (Fin r)" by (simp add: percentage_def td fm)
  ultimately show ?thesis by blast
qed

lemma floor_rat_numeral_div: "\<lfloor>(numeral a :: rat) / numeral b\<rfloor> = numeral a div numeral b"
  by (metis floor_divide_of_int_eq of_int_numeral)

lemma percentage_compute:
  assumes "0 < c" "0 < t"
    and "2 powi e1 \<le> (of_nat c / of_nat t :: rat)" "(of_nat c / of_nat t :: rat) < 2 powi (e1 + 1)"
    and "- 1022 \<le> e1"
    and "q = of_int (round_half_even ((of_nat c / of_nat t) / 2 powi (e1 - 52))) * 2 powi (e1 - 52)"
    and "0 < q" "q < 2 ^ 1024"
    and "2 powi e2 \<le> q * 100" "q * 100 < 2 powi (e2 + 1)" "- 1022 \<le> e2"
    and "r = of_int (round_half_even (q * 100 / 2 powi (e2 - 52))) * 2 powi (e2 - 52)"
    and "r < 2 ^ 1024" "0 \<le> r"
  shows "percentage c t = Inr (Fin r)"
proof -
  have x0: "(0::rat) < of_nat c / of_nat t" using assms(1,2) by simp
  have "round_double (of_nat c / of_nat t) = q"
    using round_double_normal[OF x0 assms(3,4,5)] assms(6) by simp
  then have td: "true_divide c t = Inr q"
    using assms(2,8) by (simp add: true_divide_def Let_def)
  have y0: "0 < q * 100" using assms(7) by simp
  have "round_double (q * 100) = r"
    using round_double_normal[OF y0 assms(9,10,11)] assms(12) by simp
  then have "float_mul q 100 = Fin r"
    using assms(13,14) by (simp add: float_mul_def Let_def)
  with td show ?thesis by (simp add: percentage_def)
qed

lemma percentage_1_5: "percentage 1 5 = Inr (Fin (20))"
  by (rule percentage_compute[where ?e1.0 = "- 3" and ?e2.0 = "4" and q = "3602879701896397 / 18014398509481984"])
     (simp_all add: round_half_even_def Let_def floor_rat_numeral_div)

lemma percentage_2_5: "percentage 2 5 = Inr (Fin (40))"
  by (rule percentage_compute[where ?e1.0 = "- 2" and ?e2.0 = "5" and q = "3602879701896397 / 9007199254740992"])
     (simp_all add: round_half_even_def Let_def floor_rat_numeral_div)

lemma percentage_3_5: "percentage 3 5 = Inr (Fin (60))"
  by (rule percentage_compute[where ?e1.0 = "- 1" and ?e2.0 = "5" and q = "5404319552844595 / 9007199254740992"])
     (simp_all add: round_half_even_def Let_def floor_rat_numeral_div)

lemma percentage_7_100: "percentage 7 100 = Inr (Fin (7881299347898369 / 1125899906842624))"
  by (rule percentage_compute[where ?e1.0 = "- 4" and ?e2.0 = "2" and q = "1261007895663739 / 18014398509481984"])
     (simp_all add: round_half_even_def Let_def floor_rat_numeral_div)

lemma percentage_1_2: "percentage 1 2 = Inr (Fin (50))"
  by (rule percentage_compute[where ?e1.0 = "- 1" and ?e2.0 = "5" and q = "1 / 2"])
     (simp_all add: round_half_even_def Let_def floor_rat_numeral_div)

lemma percentage_2_2: "percentage 2 2 = Inr (Fin (100))"
  by (rule percentage_compute[where ?e1.0 = "0" and ?e2.0 = "6" and q = "1"])
     (simp_all add: round_half_even_def Let_def floor_rat_numeral_div)

section \<open>Evaluating the observer and a run on concrete inputs\<close>

lemma percentage_21474837_1: "percentage 21474837 1 = Inr (Fin 2147483700)"
  by (rule percentage_compute[where ?e1.0 = "24" and ?e2.0 = "31" and q = "21474837"])
     (simp_all add: round_half_even_def Let_def floor_rat_numeral_div)

lemma percentage_div_zero: "percentage p 0 = Inl ZeroDivisionError"
  by (simp add: percentage_def true_divide_def)

lemma percentage_values:
  "p = 1 \<Longrightarrow> t = 5 \<Longrightarrow> percentage p t = Inr (Fin 20)"
  "p = 2 \<Longrightarrow> t = 5 \<Longrightarrow> percentage p t = Inr (Fin 40)"
  "p = 3 \<Longrightarrow> t = 5 \<Longrightarrow> percentage p t = Inr (Fin 60)"
  "p = 1 \<Longrightarrow> t = 2 \<Longrightarrow> percentage p t = Inr (Fin 50)"
  "p = 2 \<Longrightarrow> t = 2 \<Longrightarrow> percentage p t = Inr (Fin 100)"
  using percentage_1_5 percentage_2_5 percentage_3_5 percentage_1_2 percentage_2_2
  by (simp_all only:)

lemmas handler_eval = emit_def emit_body_def match_at_def is_digit_def int_of_digits_def py_int_def
  update_pb_emit_def
  percentage_div_zero percentage_values

lemmas run_eval = convert_def try_body_def loop_body_def get_temp_dir_def bind_def catch_def
  return_def emit_signal_def external_def logging_external_def addHandler_def reset_shared_state_def
  stub_def start_def lower_def lower_char_def endswith_def error_msg_def suffix_iff_drop

lemma str_nat_values:
  "n = 1 \<Longrightarrow> str_nat n = ''1''" "n = 2 \<Longrightarrow> str_nat n = ''2''"
  by (simp_all add: str_nat.simps)

section \<open>Claims about the progress observer\<close>

text \<open>
  Claim C2, as the code has it. For a total of at most \<open>2\<^sup>1\<^sup>0\<^sup>2\<^sup>2\<close> chunks and a count of
  completed chunks between 0 and the total, the percentage the observer computes,
  \<^verbatim>\<open>(progress / total_parts) * 100\<close> in binary64 arithmetic, is a finite float within a
  relative error of \<open>2\<^sup>-\<^sup>5\<^sup>1\<close> of \<open>100 \<times> completed / total\<close>. It is rounded twice and need not be
  equal to it.
\<close>

theorem percentage_within_rounding:
  assumes "0 < t" "c \<le> t" "t \<le> 2 ^ 1022"
  shows "\<exists>r. percentage c t = Inr (Fin r) \<and>
             \<bar>r - 100 * of_nat c / of_nat t\<bar> \<le> (100 * of_nat c / of_nat t) / 2 ^ 51"
proof (cases "c = 0")
  case True
  with assms(1) show ?thesis by (simp add: percentage_zero)
next
  case False
  then have "0 < c" by simp
  then show ?thesis using assms(2,3) by (rule percentage_error)
qed

theorem percentage_within_rounding_witness:
  "(0::nat) < 5 \<and> (3::nat) \<le> 5 \<and> (5::nat) \<le> 2 ^ 1022 \<and>
   (\<exists>r. percentage 3 5 = Inr (Fin r) \<and>
        \<bar>r - 100 * of_nat 3 / of_nat 5\<bar> \<le> (100 * of_nat 3 / of_nat 5) / 2 ^ 51)"
proof -
  have h: "(0::nat) < 5" "(3::nat) \<le> 5" "(5::nat) \<le> 2 ^ 1022" by simp_all
  from percentage_within_rounding[OF h] h show ?thesis by blast
qed

text \<open>The claim as stated, with equality, fails for 7 completed chunks of 100: the quotient
  7/100 is rounded up, and the product with 100 is the float next above 7.\<close>

theorem percentage_not_exact:
  "(0::nat) < 100 \<and> (7::nat) \<le> 100 \<and>
   percentage 7 100 = Inr (Fin (7 + 1 / 2 ^ 50)) \<and>
   percentage 7 100 \<noteq> Inr (Fin (100 * 7 / 100))"
  by (simp add: percentage_7_100)

text \<open>
  Claim C3, as the code has it. A message that matches \<^verbatim>\<open>part-(\d+) created\<close> increments
  the count of completed chunks by exactly one, after a total announced in the same
  message has been stored; only when that total has more than 4300 digits does \<^verbatim>\<open>int\<close>
  raise before anything is changed. When \<^verbatim>\<open>(progress / total_parts) * 100\<close> does not
  raise, the percentage becomes its value, and \<^verbatim>\<open>update_pb\<close> is emitted once with it when
  the value fits the int of the signal; when it does not fit (\<open>2\<^sup>3\<^sup>1\<close> or more, or
  infinite) the percentage stays stored, nothing is emitted and the error path runs. When
  the computation raises (a total of 0, or a quotient too large for a float) the count
  stays incremented, the percentage is left as it was and nothing is emitted: the error
  path runs instead. The message \<^verbatim>\<open>text_parts: 5\<close> followed by \<^verbatim>\<open>part-1 created\<close>,
  \<^verbatim>\<open>part-2 created\<close> and \<^verbatim>\<open>part-3 created\<close> yields the updates 20.0, 40.0 and 60.0 in
  that order.
\<close>

theorem completion_message_counted:
  assumes "re_search ''part-'' '' created'' msg = Some d"
  shows "emit (Inr msg) st =
          (case (case re_search ''text_parts: '' [] msg of
                   Some digit_str \<Rightarrow> py_int digit_str
                 | None \<Rightarrow> Inr (total_parts st)) of
             Inl e \<Rightarrow> (st, [HandleError])
           | Inr t \<Rightarrow>
               (case percentage (progress st + 1) t of
                  Inr pct \<Rightarrow>
                    (st\<lparr>total_parts := t, progress := progress st + 1,
                        progress_percentage := pct\<rparr>,
                     case update_pb_emit pct of
                       Inr _ \<Rightarrow> [HandlerEmit (UpdatePb pct)]
                     | Inl e \<Rightarrow> [HandleError])
                | Inl e \<Rightarrow> (st\<lparr>total_parts := t, progress := progress st + 1\<rparr>,
                             [HandleError])))
         \<and> emit_stream [Inr ''text_parts: 5'', Inr ''part-1 created'', Inr ''part-2 created'',
                         Inr ''part-3 created''] SharedState =
             (\<lparr>progress = 3, total_parts = 5, progress_percentage = Fin 60\<rparr>,
              [HandlerEmit (UpdatePb (Fin 20)), HandlerEmit (UpdatePb (Fin 40)),
               HandlerEmit (UpdatePb (Fin 60))])"
proof -
  have "emit_stream [Inr ''text_parts: 5'', Inr ''part-1 created'', Inr ''part-2 created'',
                         Inr ''part-3 created''] SharedState =
             (\<lparr>progress = 3, total_parts = 5, progress_percentage = Fin 60\<rparr>,
              [HandlerEmit (UpdatePb (Fin 20)), HandlerEmit (UpdatePb (Fin 40)),
               HandlerEmit (UpdatePb (Fin 60))])"
    by (simp add: handler_eval SharedState_def)
  moreover have "emit (Inr msg) st =
          (case (case re_search ''text_parts: '' [] msg of
                   Some digit_str \<Rightarrow> py_int digit_str
                 | None \<Rightarrow> Inr (total_parts st)) of
             Inl e \<Rightarrow> (st, [HandleError])
           | Inr t \<Rightarrow>
               (case percentage (progress st + 1) t of
                  Inr pct \<Rightarrow>
                    (st\<lparr>total_parts := t, progress := progress st + 1,
                        progress_percentage := pct\<rparr>,
                     case update_pb_emit pct of
                       Inr _ \<Rightarrow> [HandlerEmit (UpdatePb pct)]
                     | Inl e \<Rightarrow> [HandleError])
                | Inl e \<Rightarrow> (st\<lparr>total_parts := t, progress := progress st + 1\<rparr>,
                             [HandleError])))"
    using assms by (simp add: emit_def emit_body_def Let_def split: option.split sum.split)
  ultimately show ?thesis by (rule conjI[rotated])
qed

theorem completion_message_counted_witness:
  "re_search ''part-'' '' created'' ''part-2 created'' = Some ''2'' \<and>
   emit (Inr ''part-2 created'') \<lparr>progress = 1, total_parts = 5, progress_percentage = Fin 20\<rparr> =
     (\<lparr>progress = 2, total_parts = 5, progress_percentage = Fin 40\<rparr>,
      [HandlerEmit (UpdatePb (Fin 40))]) \<and>
   emit (Inr ''part-2 created'')
        \<lparr>progress = 21474836, total_parts = 1, progress_percentage = Fin 0\<rparr> =
     (\<lparr>progress = 21474837, total_parts = 1, progress_percentage = Fin 2147483700\<rparr>,
      [HandleError])"
proof -
  define st0 where "st0 = \<lparr>progress = 1, total_parts = 5, progress_percentage = Fin 20\<rparr>"
  define st1 where
    "st1 = \<lparr>progress = 21474836, total_parts = 1, progress_percentage = Fin 0\<rparr>"
  have h: "re_search ''part-'' '' created'' ''part-2 created'' = Some ''2''"
    by (simp add: match_at_def is_digit_def)
  have n: "re_search ''text_parts: '' [] ''part-2 created'' = None"
    by (simp add: match_at_def is_digit_def)
  have p: "percentage (progress st0 + 1) (total_parts st0) = Inr (Fin 40)"
    by (simp add: st0_def percentage_values)
  have u: "update_pb_emit (Fin 40) = Inr ()" by (simp add: update_pb_emit_def)
  from completion_message_counted[OF h, of st0]
  have "emit (Inr ''part-2 created'') st0 =
          (st0\<lparr>total_parts := total_parts st0, progress := progress st0 + 1,
               progress_percentage := Fin 40\<rparr>, [HandlerEmit (UpdatePb (Fin 40))])"
    by (simp only: n p u option.case sum.case)
  then have a: "emit (Inr ''part-2 created'') st0 =
     (\<lparr>progress = 2, total_parts = 5, progress_percentage = Fin 40\<rparr>,
      [HandlerEmit (UpdatePb (Fin 40))])"
    by (simp add: st0_def)
  have p1: "percentage (progress st1 + 1) (total_parts st1) = Inr (Fin 2147483700)"
    using percentage_21474837_1 by (simp add: st1_def)
  have u1: "update_pb_emit (Fin 2147483700) = Inl OverflowError"
    by (simp add: update_pb_emit_def)
  from completion_message_counted[OF h, of st1]
  have "emit (Inr ''part-2 created'') st1 =
          (st1\<lparr>total_parts := total_parts st1, progress := progress st1 + 1,
               progress_percentage := Fin 2147483700\<rparr>, [HandleError])"
    by (simp only: n p1 u1 option.case sum.case)
  then have b: "emit (Inr ''part-2 created'') st1 =
     (\<lparr>progress = 21474837, total_parts = 1, progress_percentage = Fin 2147483700\<rparr>,
      [HandleError])"
    by (simp add: st1_def)
  from h a b show ?thesis by (simp only: st0_def st1_def simp_thms)
qed

text \<open>The claim as stated fails for a completion message that arrives while the total is
  still 0: the count is incremented, the division raises, and no update is emitted.\<close>

theorem completion_without_total:
  "re_search ''part-'' '' created'' ''part-1 created'' = Some ''1'' \<and>
   emit (Inr ''part-1 created'') SharedState =
     (\<lparr>progress = 1, total_parts = 0, progress_percentage = Fin 0\<rparr>, [HandleError])"
  by (simp add: handler_eval SharedState_def)

text \<open>
  Claim C7. When the processing of a record raises inside \<^verbatim>\<open>QueueHandler.emit\<close>, the
  handler's error path \<^verbatim>\<open>handleError\<close> runs, the assignments made before the exception
  stay, and the records that follow are processed from that state. The call of gTTS
  during which the record was logged returns or raises as gTTS itself does: a failure of
  the observer never becomes an exception of the run.
\<close>

theorem observer_failure_contained:
  assumes "emit_body r st = (Inl e, st', evs)"
  shows "emit r st = (st', evs @ [HandleError])
       \<and> emit_stream (r # rs) st =
           (fst (emit_stream rs st'), evs @ HandleError # snd (emit_stream rs st'))
       \<and> fst (logging_external c f s) = snd (fst (f (world s)))"
proof -
  have 1: "emit r st = (st', evs @ [HandleError])" using assms by (simp add: emit_def)
  have 2: "emit_stream (r # rs) st =
           (fst (emit_stream rs st'), evs @ HandleError # snd (emit_stream rs st'))"
    by (simp add: 1 split: prod.split)
  have 3: "fst (logging_external c f s) = snd (fst (f (world s)))"
    by (simp add: logging_external_def split: prod.split)
  from 1 2 3 show ?thesis by simp
qed

theorem observer_failure_contained_witness:
  "emit_body (Inr ''part-1 created'') SharedState =
     (Inl ZeroDivisionError, \<lparr>progress = 1, total_parts = 0, progress_percentage = Fin 0\<rparr>, [])
   \<and> emit_stream [Inr ''part-1 created'', Inr ''text_parts: 2'', Inr ''part-2 created''] SharedState =
     (\<lparr>progress = 2, total_parts = 2, progress_percentage = Fin 100\<rparr>,
      [HandleError, HandlerEmit (UpdatePb (Fin 100))])"
proof -
  define rs :: "log_record list" where "rs = [Inr ''text_parts: 2'', Inr ''part-2 created'']"
  have h: "emit_body (Inr ''part-1 created'') SharedState =
     (Inl ZeroDivisionError, \<lparr>progress = 1, total_parts = 0, progress_percentage = Fin 0\<rparr>, [])"
    by (simp add: handler_eval SharedState_def)
  have t: "emit_stream rs \<lparr>progress = 1, total_parts = 0, progress_percentage = Fin 0\<rparr> =
        (\<lparr>progress = 2, total_parts = 2, progress_percentage = Fin 100\<rparr>,
         [HandlerEmit (UpdatePb (Fin 100))])"
    by (simp add: rs_def handler_eval)
  from observer_failure_contained[OF h, of rs "GTTS []" "gTTS (stub True False) []" start]
  have "emit_stream (Inr ''part-1 created'' # rs) SharedState =
     (\<lparr>progress = 2, total_parts = 2, progress_percentage = Fin 100\<rparr>,
      [HandleError, HandlerEmit (UpdatePb (Fin 100))])"
    by (simp only: t fst_conv snd_conv append_Nil)
  with h show ?thesis by (simp only: rs_def)
qed

section \<open>Steps of a run\<close>

lemma bind_Inr_iff:
  "bind m f s = (Inr y, s') \<longleftrightarrow> (\<exists>x s1. m s = (Inr x, s1) \<and> f x s1 = (Inr y, s'))"
  by (auto simp: bind_def split: prod.splits sum.splits)

lemma bind_Inl_iff:
  "bind m f s = (Inl e, s') \<longleftrightarrow>
     m s = (Inl e, s') \<or> (\<exists>x s1. m s = (Inr x, s1) \<and> f x s1 = (Inl e, s'))"
  by (auto simp: bind_def split: prod.splits sum.splits)

lemma emit_signal_iff:
  "emit_signal sg s = (r, s') \<longleftrightarrow> r = Inr () \<and> s' = s\<lparr>trace := trace s @ [Emit sg]\<rparr>"
  by (auto simp: emit_signal_def)

lemma return_iff: "return x s = (r, s') \<longleftrightarrow> r = Inr x \<and> s' = s"
  by (auto simp: return_def)

lemma external_iff:
  "external c f s = (r, s') \<longleftrightarrow>
     (\<exists>w. f (world s) = (r, w) \<and> s' = s\<lparr>world := w, trace := trace s @ [Call c]\<rparr>)"
  by (auto simp: external_def split: prod.splits)

lemma logging_external_iff:
  "logging_external c f s = (r, s') \<longleftrightarrow>
     (\<exists>recs w. f (world s) = ((recs, r), w) \<and>
        s' = s\<lparr>world := w, handlers := fst (log_records recs (handlers s)),
               trace := trace s @ Call c # snd (log_records recs (handlers s))\<rparr>)"
  by (auto simp: logging_external_def split: prod.splits)

lemma reset_shared_state_iff:
  "reset_shared_state s = (r, s') \<longleftrightarrow>
     r = Inr () \<and> s' = s\<lparr>handlers := butlast (handlers s) @ [SharedState]\<rparr>"
  by (auto simp: reset_shared_state_def SharedState_def)

lemmas step_iffs = bind_Inr_iff bind_Inl_iff emit_signal_iff return_iff external_iff
  logging_external_iff reset_shared_state_iff

lemma emit_by_handler: "emit r h = (h', evs) \<Longrightarrow> list_all by_handler evs"
  by (auto simp: emit_def emit_body_def Let_def split: sum.splits option.splits prod.splits)

lemma callHandlers_by_handler:
  "callHandlers r hs = (hs', evs) \<Longrightarrow> list_all by_handler evs \<and> length hs' = length hs"
proof (induction hs arbitrary: hs' evs)
  case Nil
  then show ?case by simp
next
  case (Cons h hs)
  then show ?case
    by (auto split: prod.splits dest: emit_by_handler)
qed

lemma log_records_by_handler:
  "log_records rs hs = (hs', evs) \<Longrightarrow> list_all by_handler evs \<and> length hs' = length hs"
proof (induction rs arbitrary: hs hs' evs)
  case Nil
  then show ?case by simp
next
  case (Cons r rs)
  then show ?case
    by (auto split: prod.splits dest: callHandlers_by_handler)
qed

lemma log_records_facts [simp]:
  "list_all by_handler (snd (log_records rs hs))"
  "length (fst (log_records rs hs)) = length hs"
  using log_records_by_handler[of rs hs] by (auto simp: prod_eq_iff)

lemma orchestrated_handler [simp]: "list_all by_handler evs \<Longrightarrow> orchestrated evs = []"
  by (induction evs) (auto simp: orchestrated_def)

lemma orchestrated_append [simp]: "orchestrated (xs @ ys) = orchestrated xs @ orchestrated ys"
  by (simp add: orchestrated_def)

lemma orchestrated_Cons [simp]:
  "orchestrated (e # evs) = (if by_handler e then orchestrated evs else e # orchestrated evs)"
  by (simp add: orchestrated_def)

lemma orchestrated_Nil [simp]: "orchestrated [] = []"
  by (simp add: orchestrated_def)

lemma loop_body_ok:
  assumes "loop_body ext pdf n i p s = (Inr (), s')"
  shows "\<exists>text out evs. trace s' = trace s @ evs \<and>
           orchestrated evs = chunk_events pdf n i (p, text, out) \<and>
           last (handlers s') = SharedState \<and>
           length (handlers s') = length (butlast (handlers s) @ [SharedState])"
  using assms
  apply (simp add: loop_body_def step_iffs)
  apply (elim exE conjE)
  apply (simp add: chunk_events_def)
  done

lemma for_output_paths_Cons_iff:
  "for_output_paths ext pdf n i (p # ps) s = (r, s') \<longleftrightarrow>
     (\<exists>e. loop_body ext pdf n (i + 1) p s = (Inl e, s') \<and> r = Inl e) \<or>
     (\<exists>s1. loop_body ext pdf n (i + 1) p s = (Inr (), s1) \<and>
            for_output_paths ext pdf n (i + 1) ps s1 = (r, s'))"
  by (auto split: prod.splits sum.splits)

lemma loop_ok:
  "for_output_paths ext pdf n i ps s = (Inr (), s') \<Longrightarrow>
   \<exists>cs evs. map fst cs = ps \<and> trace s' = trace s @ evs \<and>
            orchestrated evs = chunks_events pdf n i cs \<and>
            (ps \<noteq> [] \<longrightarrow> last (handlers s') = SharedState)"
proof (induction ps arbitrary: s i)
  case Nil
  then show ?case by simp
next
  case (Cons p ps)
  from Cons.prems obtain s1 where
    b: "loop_body ext pdf n (i + 1) p s = (Inr (), s1)" and
    l: "for_output_paths ext pdf n (i + 1) ps s1 = (Inr (), s')"
    unfolding for_output_paths_Cons_iff by blast
  from loop_body_ok[OF b] obtain tx out evs1 where
    1: "trace s1 = trace s @ evs1" "orchestrated evs1 = chunk_events pdf n (i + 1) (p, tx, out)"
       "last (handlers s1) = SharedState" by blast
  from Cons.IH[OF l] obtain cs evs2 where
    2: "map fst cs = ps" "trace s' = trace s1 @ evs2"
       "orchestrated evs2 = chunks_events pdf n (i + 1) cs"
       "ps \<noteq> [] \<longrightarrow> last (handlers s') = SharedState" by blast
  have h: "last (handlers s') = SharedState"
  proof (cases ps)
    case Nil
    with l 1(3) show ?thesis by simp
  next
    case (Cons a list)
    with 2(4) show ?thesis by simp
  qed
  have "map fst ((p, tx, out) # cs) = p # ps" using 2(1) by simp
  moreover have "trace s' = trace s @ (evs1 @ evs2)" using 1(1) 2(2) by simp
  moreover have "orchestrated (evs1 @ evs2) = chunks_events pdf n i ((p, tx, out) # cs)"
    using 1(2) 2(3) by simp
  ultimately have "map fst ((p, tx, out) # cs) = p # ps \<and> trace s' = trace s @ (evs1 @ evs2) \<and>
      orchestrated (evs1 @ evs2) = chunks_events pdf n i ((p, tx, out) # cs) \<and>
      (p # ps \<noteq> [] \<longrightarrow> last (handlers s') = SharedState)"
    using h by simp
  then show ?case by (intro exI)
qed

lemma loop_append:
  "for_output_paths ext pdf n i (ps1 @ ps2) s =
     (case for_output_paths ext pdf n i ps1 s of
        (Inl e, s1) \<Rightarrow> (Inl e, s1)
      | (Inr _, s1) \<Rightarrow> for_output_paths ext pdf n (i + length ps1) ps2 s1)"
  by (induction ps1 arbitrary: s i) (auto split: prod.splits sum.splits)

text \<open>With splitting enabled, once extraction, the temporary directory and the chunker
  have succeeded, the rest of the \<^verbatim>\<open>try\<close> block is the loop over the paths the chunker
  returned, entered with a count of 0 and their number as \<^verbatim>\<open>output_count\<close>.\<close>

lemma try_body_is_loop:
  assumes "clean_text ext pdf (world s) = (Inr tx, w1)"
    and "isChecked ext w1"
    and "get_temp_dir ext (s\<lparr>world := w1, trace := trace s @ [Call (CleanText pdf)]\<rparr>) = (Inr dir, s2)"
    and "tts_word_count ext tx (path_join ext dir ''tts-tempfile.txt'') (world s2) = (Inr ps, w3)"
  shows "try_body ext pdf s =
           for_output_paths ext pdf (length ps) 0 ps
             (s2\<lparr>world := w3,
                 trace := trace s2 @
                   [Call (TtsWordCount tx (path_join ext dir ''tts-tempfile.txt''))]\<rparr>)"
  using assms by (simp add: try_body_def bind_def external_def return_def)

section \<open>Events of the try block\<close>

lemma convert_supported:
  assumes "supported pdf"
  shows "convert ext pdf s =
     (case try_body ext pdf (entered pdf s) of
        (Inl e, s1) \<Rightarrow>
          (Inr (), s1\<lparr>trace := trace s1 @ [Emit (OpMsgs (error_msg pdf e)), Emit (ViewPb False)]\<rparr>)
      | (Inr _, s1) \<Rightarrow> (Inr (), s1\<lparr>trace := trace s1 @ [Emit (ViewPb False)]\<rparr>))"
  using assms validated_iff[of pdf]
  by (simp add: convert_def bind_def catch_def emit_signal_def addHandler_def entered_def
           split: prod.splits sum.splits)

lemma quiet_handler: "list_all by_handler evs \<Longrightarrow> list_all (quiet pdf) evs"
proof (induction evs)
  case Nil
  then show ?case by simp
next
  case (Cons e evs)
  then show ?case by (cases e) auto
qed

lemma get_temp_dir_quiet:
  "get_temp_dir ext s = (r, s') \<Longrightarrow> \<exists>evs. trace s' = trace s @ evs \<and> list_all (quiet pdf) evs"
  by (cases r) (auto simp: get_temp_dir_def Let_def step_iffs split: if_splits)

lemma loop_body_quiet:
  "loop_body ext pdf n i p s = (r, s') \<Longrightarrow>
     \<exists>evs. trace s' = trace s @ evs \<and> list_all (quiet pdf) evs"
  by (cases r) (auto simp: loop_body_def step_iffs quiet_handler)

lemma loop_quiet:
  "for_output_paths ext pdf n i ps s = (r, s') \<Longrightarrow>
     \<exists>evs. trace s' = trace s @ evs \<and> list_all (quiet pdf) evs"
proof (induction ps arbitrary: s i)
  case Nil
  then show ?case by simp
next
  case (Cons p ps)
  from Cons.prems consider
    (fail) e where "loop_body ext pdf n (i + 1) p s = (Inl e, s')" |
    (go) s1 where "loop_body ext pdf n (i + 1) p s = (Inr (), s1)"
                  "for_output_paths ext pdf n (i + 1) ps s1 = (r, s')"
    unfolding for_output_paths_Cons_iff by blast
  then show ?case
  proof cases
    case fail
    then show ?thesis by (rule loop_body_quiet)
  next
    case go
    from loop_body_quiet[OF go(1)] obtain evs1 where
      1: "trace s1 = trace s @ evs1" "list_all (quiet pdf) evs1" by blast
    from Cons.IH[OF go(2)] obtain evs2 where
      2: "trace s' = trace s1 @ evs2" "list_all (quiet pdf) evs2" by blast
    have "trace s' = trace s @ (evs1 @ evs2) \<and> list_all (quiet pdf) (evs1 @ evs2)"
      using 1 2 by simp
    then show ?thesis by (intro exI)
  qed
qed

lemma try_body_quiet:
  assumes "try_body ext pdf s = (r, s')"
  shows "\<exists>evs. trace s' = trace s @ evs \<and> list_all (quiet pdf) evs"
proof (cases "fst (clean_text ext pdf (world s))")
  case (Inl e)
  with assms show ?thesis
    by (cases r) (auto simp: try_body_def step_iffs)
next
  case (Inr tx)
  define s1 where "s1 = s\<lparr>world := snd (clean_text ext pdf (world s)),
                            trace := trace s @ [Call (CleanText pdf)]\<rparr>"
  have c: "external (CleanText pdf) (clean_text ext pdf) s = (Inr tx, s1)"
    using Inr by (auto simp: external_def s1_def split: prod.splits)
  show ?thesis
  proof (cases "isChecked ext (world s1)")
    case True
    with assms c have "bind (get_temp_dir ext) (\<lambda>temp_dir.
         bind (return (path_join ext temp_dir ''tts-tempfile.txt'')) (\<lambda>temp_file.
         bind (external (TtsWordCount tx temp_file) (tts_word_count ext tx temp_file))
           (\<lambda>output_paths.
         for_output_paths ext pdf (length output_paths) 0 output_paths))) s1 = (r, s')"
      by (simp add: try_body_def bind_def)
    then have "\<exists>evs. trace s' = trace s1 @ evs \<and> list_all (quiet pdf) evs"
      apply (cases r)
       apply (auto simp: step_iffs dest!: get_temp_dir_quiet[where pdf = pdf] loop_quiet)
      done
    then show ?thesis by (auto simp: s1_def)
  next
    case False
    with assms c have "bind (logging_external (GTTS tx) (gTTS ext tx)) (\<lambda>_.
         bind (external (ConstructFilename pdf ''tts_ps'') (construct_filename ext pdf ''tts_ps''))
           (\<lambda>output_file.
         bind (logging_external (Save tx output_file) (save ext tx output_file)) (\<lambda>_.
         emit_signal (OpMsgs (''Conversion complete. Output: '' @ output_file))))) s1 = (r, s')"
      by (simp add: try_body_def bind_def)
    then have "\<exists>evs. trace s' = trace s1 @ evs \<and> list_all (quiet pdf) evs"
      by (cases r) (auto simp: step_iffs quiet_handler)
    then show ?thesis by (auto simp: s1_def)
  qed
qed

section \<open>Claims about validated runs\<close>

lemma quiet_no_error: "list_all (quiet pdf) evs \<Longrightarrow> filter is_error_message evs = []"
proof (induction evs)
  case Nil
  then show ?case by simp
next
  case (Cons e evs)
  then have q: "quiet pdf e" and r: "filter is_error_message evs = []" by simp_all
  have "\<not> is_error_message e"
  proof (cases e)
    case (Emit sg)
    with q show ?thesis by (cases sg) simp_all
  qed simp_all
  with r show ?case by simp
qed

lemma supported_broken: "supported ''broken.pdf''"
  by (simp add: supported_def ends_with_ci_def lower_char_def)

lemma stub_extraction_fails:
  "try_body (stub True False) ''broken.pdf'' (entered ''broken.pdf'' start) =
     (Inl (Exception ''cannot open''),
      \<lparr>world = (), handlers = [SharedState],
       trace = [Emit (OpMsgs ''Converting broken.pdf''), Emit (RevisePbLabel ''TTS Progress:''),
                Emit (ViewPb True), Call (CleanText ''broken.pdf'')]\<rparr>)"
  by (simp add: run_eval entered_def)

text \<open>
  Claim C5, as the code has it. Every run that passes the validation of the file type
  returns normally and ends, whether extraction and synthesis succeed or fail, with the
  signal that hides the progress bar. (A run rejected for its file type returns before
  the progress bar is shown and emits no visibility signal at all.)
\<close>

theorem progress_hidden_after_validated_run:
  assumes "supported pdf"
  shows "fst (convert ext pdf s) = Inr () \<and>
         last (trace (snd (convert ext pdf s))) = Emit (ViewPb False)"
  by (simp add: convert_supported[OF assms] split: prod.split sum.split)

theorem progress_hidden_after_validated_run_witness:
  "supported ''broken.pdf'' \<and>
   fst (convert (stub True False) ''broken.pdf'' start) = Inr () \<and>
   last (trace (snd (convert (stub True False) ''broken.pdf'' start))) = Emit (ViewPb False)"
  using progress_hidden_after_validated_run[OF supported_broken, of "stub True False" start]
    supported_broken by simp

text \<open>The claim as stated includes the rejection of an unsupported file type, and there
  it fails: the run of \<^verbatim>\<open>report.docx\<close> emits the rejection message only.\<close>

theorem rejected_run_not_hidden:
  "\<not> supported ''report.docx'' \<and>
   trace (snd (convert (stub True False) ''report.docx'' start)) =
     [Emit (OpMsgs ''Cannot TTS. Filetype is not TXT or PDF.'')] \<and>
   last (trace (snd (convert (stub True False) ''report.docx'' start))) \<noteq> Emit (ViewPb False)"
  using docx by (simp add: run_eval)

text \<open>
  Claim C4. When the \<^verbatim>\<open>try\<close> block of a validated run raises an exception, in extraction
  or in synthesis, \<^verbatim>\<open>convert\<close> returns normally; what it has emitted is the three events
  before the block, the events of the block, the message
  \<^verbatim>\<open>Error converting <source>: <exception text>\<close> and the signal that hides the progress
  bar. That message is the only error message of the run, and it contains the source
  path and the exception text. When it is the extraction that fails, the block consists of
  the call of the extractor alone: nothing is synthesised or saved.
\<close>

theorem errors_caught:
  assumes "supported pdf" "try_body ext pdf (entered pdf s) = (Inl e, s1)"
  shows "\<exists>evs.
     convert ext pdf s =
       (Inr (), s1\<lparr>trace := trace (entered pdf s) @ evs @
                      [Emit (OpMsgs (error_msg pdf e)), Emit (ViewPb False)]\<rparr>) \<and>
     filter is_error_message (drop (length (trace s))
        (trace (entered pdf s) @ evs @ [Emit (OpMsgs (error_msg pdf e)), Emit (ViewPb False)]))
       = [Emit (OpMsgs (error_msg pdf e))] \<and>
     sublist pdf (error_msg pdf e) \<and> sublist (str e) (error_msg pdf e) \<and>
     (\<forall>e'. fst (clean_text ext pdf (world s)) = Inl e' \<longrightarrow> evs = [Call (CleanText pdf)])"
proof -
  from try_body_quiet[OF assms(2)] obtain evs where
    t: "trace s1 = trace (entered pdf s) @ evs" and q: "list_all (quiet pdf) evs" by blast
  have c: "convert ext pdf s =
       (Inr (), s1\<lparr>trace := trace (entered pdf s) @ evs @
                      [Emit (OpMsgs (error_msg pdf e)), Emit (ViewPb False)]\<rparr>)"
    by (simp add: convert_supported[OF assms(1)] assms(2) t)
  have f: "filter is_error_message (drop (length (trace s))
        (trace (entered pdf s) @ evs @ [Emit (OpMsgs (error_msg pdf e)), Emit (ViewPb False)]))
       = [Emit (OpMsgs (error_msg pdf e))]"
    by (simp add: entered_def quiet_no_error[OF q] error_msg_def)
  have "error_msg pdf e = ''Error converting '' @ pdf @ ('': '' @ str e)"
    by (simp add: error_msg_def)
  then have s1: "sublist pdf (error_msg pdf e)" unfolding sublist_def by blast
  have "error_msg pdf e = (''Error converting '' @ pdf @ '': '') @ str e @ []"
    by (simp add: error_msg_def)
  then have s2: "sublist (str e) (error_msg pdf e)" unfolding sublist_def by blast
  have x: "evs = [Call (CleanText pdf)]" if "fst (clean_text ext pdf (world s)) = Inl e'" for e'
    using that assms(2) t
    by (auto simp: try_body_def bind_def external_def entered_def split: prod.splits sum.splits)
  from c f s1 s2 x show ?thesis by blast
qed

theorem errors_caught_witness:
  "supported ''broken.pdf'' \<and>
   convert (stub True False) ''broken.pdf'' start =
     (Inr (), \<lparr>world = (), handlers = [SharedState],
       trace = [Emit (OpMsgs ''Converting broken.pdf''), Emit (RevisePbLabel ''TTS Progress:''),
                Emit (ViewPb True), Call (CleanText ''broken.pdf''),
                Emit (OpMsgs ''Error converting broken.pdf: cannot open''),
                Emit (ViewPb False)]\<rparr>)"
proof -
  have w: "fst (clean_text (stub True False) ''broken.pdf'' (world start)) = Inl (Exception ''cannot open'')"
    by (simp add: stub_def)
  from errors_caught[OF supported_broken stub_extraction_fails] w
  have "convert (stub True False) ''broken.pdf'' start =
       (Inr (), \<lparr>world = (), handlers = [SharedState],
       trace = [Emit (OpMsgs ''Converting broken.pdf''), Emit (RevisePbLabel ''TTS Progress:''),
                Emit (ViewPb True), Call (CleanText ''broken.pdf'')]\<rparr>
         \<lparr>trace := trace (entered ''broken.pdf'' start) @ [Call (CleanText ''broken.pdf'')] @
                      [Emit (OpMsgs (error_msg ''broken.pdf'' (Exception ''cannot open''))),
                       Emit (ViewPb False)]\<rparr>)"
    by auto
  then show ?thesis using supported_broken by (simp add: entered_def start_def error_msg_def)
qed

section \<open>Claims about the chunk loop\<close>

lemma synthesis_orchestrated [simp]:
  "filter is_synthesis (orchestrated evs) = filter is_synthesis evs"
proof (induction evs)
  case Nil
  then show ?case by simp
next
  case (Cons e evs)
  then show ?case by (cases e) auto
qed

lemma removals_orchestrated [simp]: "removals (orchestrated evs) = removals evs"
proof (induction evs)
  case Nil
  then show ?case by simp
next
  case (Cons e evs)
  then show ?case by (cases e) (auto simp: removals_def)
qed

lemma removals_append [simp]: "removals (xs @ ys) = removals xs @ removals ys"
  by (simp add: removals_def)

lemma chunks_events_synthesis:
  "length (filter is_synthesis (chunks_events pdf n i cs)) = length cs"
  by (induction cs arbitrary: i) (auto simp: chunk_events_def)

lemma chunks_events_removals: "removals (chunks_events pdf n i cs) = map fst cs"
  by (induction cs arbitrary: i) (auto simp: chunk_events_def removals_def)

lemma stub_split_loop:
  "for_output_paths (stub True False) ''a.pdf'' (length [''c1'', ''c2'']) 0 [''c1'', ''c2'']
     (entered ''a.pdf'' start) =
     (Inr (), \<lparr>world = (), handlers = [SharedState],
       trace = [Emit (OpMsgs ''Converting a.pdf''), Emit (RevisePbLabel ''TTS Progress:''),
         Emit (ViewPb True),
         Emit (RevisePbLabel ''TTS Progress (1/2):''), Call (OpenRead ''c1''), Call (GTTS ''c1''),
         Call (ConstructFilename ''a.pdf'' ''tts_ps''), Call (Save ''c1'' ''a.pdf.tts_ps''),
         HandlerEmit (UpdatePb (Fin 50)), HandlerEmit (UpdatePb (Fin 100)),
         Emit (OpMsgs ''Conversion 1/2 complete. Output: a.pdf.tts_ps''),
         Emit (UpdatePb (Fin 0)), Call (Remove ''c1''),
         Emit (RevisePbLabel ''TTS Progress (2/2):''), Call (OpenRead ''c2''), Call (GTTS ''c2''),
         Call (ConstructFilename ''a.pdf'' ''tts_ps''), Call (Save ''c2'' ''a.pdf.tts_ps''),
         HandlerEmit (UpdatePb (Fin 50)), HandlerEmit (UpdatePb (Fin 100)),
         Emit (OpMsgs ''Conversion 2/2 complete. Output: a.pdf.tts_ps''),
         Emit (UpdatePb (Fin 0)), Call (Remove ''c2'')]\<rparr>)"
  by (simp add: run_eval handler_eval SharedState_def str_nat_values entered_def)

text \<open>
  Claim C1, as the code has it. When the loop over the \<open>N\<close> chunk files the chunker
  returned completes without an exception, the orchestrator's own events are, chunk after
  chunk in the chunker's order: the label \<open>(i/N)\<close>, the read of the chunk file, the gTTS
  object for the text read, the filename construction, the save, the completion message
  with \<open>i/N\<close>, the progress update 0 and the removal of the chunk file. So there are
  exactly \<open>N\<close> synthesis invocations and every chunk file is removed after it was read.
  After each chunk, before the next one begins, the shared progress state is all zero.
\<close>

theorem chunks_synthesised_in_order:
  assumes "for_output_paths ext pdf (length ps) 0 ps s = (Inr (), s')"
  shows "(\<exists>cs evs. map fst cs = ps \<and> trace s' = trace s @ evs \<and>
            orchestrated evs = chunks_events pdf (length ps) 0 cs \<and>
            length (filter is_synthesis evs) = length ps \<and> removals evs = ps)
       \<and> (\<forall>k < length ps. \<exists>s1.
            for_output_paths ext pdf (length ps) 0 (take (Suc k) ps) s = (Inr (), s1) \<and>
            last (handlers s1) = SharedState \<and>
            for_output_paths ext pdf (length ps) (Suc k) (drop (Suc k) ps) s1 = (Inr (), s'))"
proof
  from loop_ok[OF assms] obtain cs evs where
    1: "map fst cs = ps" "trace s' = trace s @ evs"
       "orchestrated evs = chunks_events pdf (length ps) 0 cs" by blast
  have "length (filter is_synthesis (orchestrated evs)) = length cs"
    by (simp only: 1(3) chunks_events_synthesis)
  moreover have "length cs = length ps" using arg_cong[OF 1(1), of length] by simp
  ultimately have 2: "length (filter is_synthesis evs) = length ps" by simp
  have "removals (orchestrated evs) = map fst cs"
    by (simp only: 1(3) chunks_events_removals)
  then have 3: "removals evs = ps" using 1(1) by simp
  from 1 2 3 show "\<exists>cs evs. map fst cs = ps \<and> trace s' = trace s @ evs \<and>
            orchestrated evs = chunks_events pdf (length ps) 0 cs \<and>
            length (filter is_synthesis evs) = length ps \<and> removals evs = ps"
    by blast
next
  show "\<forall>k < length ps. \<exists>s1.
            for_output_paths ext pdf (length ps) 0 (take (Suc k) ps) s = (Inr (), s1) \<and>
            last (handlers s1) = SharedState \<and>
            for_output_paths ext pdf (length ps) (Suc k) (drop (Suc k) ps) s1 = (Inr (), s')"
  proof (intro allI impI)
    fix k assume k: "k < length ps"
    have "for_output_paths ext pdf (length ps) 0 (take (Suc k) ps @ drop (Suc k) ps) s = (Inr (), s')"
      using assms by simp
    then obtain s1 where
      a: "for_output_paths ext pdf (length ps) 0 (take (Suc k) ps) s = (Inr (), s1)" and
      b: "for_output_paths ext pdf (length ps) (0 + length (take (Suc k) ps)) (drop (Suc k) ps) s1
            = (Inr (), s')"
      unfolding loop_append by (auto split: prod.splits sum.splits)
    have n: "take (Suc k) ps \<noteq> []" using k by auto
    from loop_ok[OF a] n have c: "last (handlers s1) = SharedState" by blast
    have "0 + length (take (Suc k) ps) = Suc k" using k by simp
    with b have "for_output_paths ext pdf (length ps) (Suc k) (drop (Suc k) ps) s1 = (Inr (), s')"
      by (simp only:)
    with a c show "\<exists>s1.
            for_output_paths ext pdf (length ps) 0 (take (Suc k) ps) s = (Inr (), s1) \<and>
            last (handlers s1) = SharedState \<and>
            for_output_paths ext pdf (length ps) (Suc k) (drop (Suc k) ps) s1 = (Inr (), s')"
      by blast
  qed
qed

theorem chunks_synthesised_in_order_witness:
  "fst (for_output_paths (stub True False) ''a.pdf'' (length [''c1'', ''c2'']) 0 [''c1'', ''c2'']
          (entered ''a.pdf'' start)) = Inr () \<and>
   removals (trace (snd (for_output_paths (stub True False) ''a.pdf'' (length [''c1'', ''c2'']) 0
          [''c1'', ''c2''] (entered ''a.pdf'' start)))) = [''c1'', ''c2''] \<and>
   length (filter is_synthesis (trace (snd (for_output_paths (stub True False) ''a.pdf''
          (length [''c1'', ''c2'']) 0 [''c1'', ''c2''] (entered ''a.pdf'' start))))) = 2"
proof -
  from chunks_synthesised_in_order[OF stub_split_loop] obtain evs where
    1: "trace (snd (for_output_paths (stub True False) ''a.pdf'' (length [''c1'', ''c2'']) 0
          [''c1'', ''c2''] (entered ''a.pdf'' start))) = trace (entered ''a.pdf'' start) @ evs"
       "length (filter is_synthesis evs) = length [''c1'', ''c2'']"
       "removals evs = [''c1'', ''c2'']"
    unfolding stub_split_loop snd_conv by auto
  have 2: "removals (trace (entered ''a.pdf'' start)) = []"
          "filter is_synthesis (trace (entered ''a.pdf'' start)) = []"
    by (simp_all add: entered_def start_def removals_def)
  have 3: "fst (for_output_paths (stub True False) ''a.pdf'' (length [''c1'', ''c2'']) 0
          [''c1'', ''c2''] (entered ''a.pdf'' start)) = Inr ()"
    by (simp only: stub_split_loop fst_conv)
  show ?thesis using 1(2,3) 2 3 by (simp only: 1(1) removals_append filter_append) simp
qed

lemma stub_failing_split_run:
  "convert (stub True True) ''a.pdf'' start =
  (Inr (), \<lparr>world = (),
     handlers = [\<lparr>progress = 2, total_parts = 2, progress_percentage = Fin 100\<rparr>],
     trace = [Emit (OpMsgs ''Converting a.pdf''), Emit (RevisePbLabel ''TTS Progress:''),
       Emit (ViewPb True), Call (CleanText ''a.pdf''),
       Call (TtsWordCount ''some text'' ''/pdfp/temp/tts-tempfile.txt''),
       Emit (RevisePbLabel ''TTS Progress (1/2):''), Call (OpenRead ''c1''), Call (GTTS ''c1''),
       Call (ConstructFilename ''a.pdf'' ''tts_ps''), Call (Save ''c1'' ''a.pdf.tts_ps''),
       HandlerEmit (UpdatePb (Fin 50)), HandlerEmit (UpdatePb (Fin 100)),
       Emit (OpMsgs ''Conversion 1/2 complete. Output: a.pdf.tts_ps''),
       Emit (UpdatePb (Fin 0)), Call (Remove ''c1''),
       Emit (RevisePbLabel ''TTS Progress (2/2):''), Call (OpenRead ''c2''), Call (GTTS ''c2''),
       Call (ConstructFilename ''a.pdf'' ''tts_ps''), Call (Save ''c2'' ''a.pdf.tts_ps''),
       HandlerEmit (UpdatePb (Fin 50)), HandlerEmit (UpdatePb (Fin 100)),
       Emit (OpMsgs ''Error converting a.pdf: no connection''), Emit (ViewPb False)]\<rparr>)"
  by (simp add: run_eval handler_eval SharedState_def str_nat_values)

text \<open>The claim as stated speaks of every run with splitting enabled, and fails for a run
  in which a chunk raises: here the chunker returns two chunk files and the save of the
  second one fails. The second file is read and never removed, its completion message is
  missing and the progress state is not reset.\<close>

theorem failing_chunk_stops_the_loop:
  "isChecked (stub True True) () \<and>
   tts_word_count (stub True True) ''some text'' ''/pdfp/temp/tts-tempfile.txt'' ()
     = (Inr [''c1'', ''c2''], ()) \<and>
   Call (OpenRead ''c2'') \<in> set (trace (snd (convert (stub True True) ''a.pdf'' start))) \<and>
   removals (trace (snd (convert (stub True True) ''a.pdf'' start))) = [''c1''] \<and>
   last (handlers (snd (convert (stub True True) ''a.pdf'' start))) =
     \<lparr>progress = 2, total_parts = 2, progress_percentage = Fin 100\<rparr>"
  by (simp add: stub_failing_split_run removals_def) (simp add: stub_def)

section \<open>Claims about the run without splitting\<close>







section \<open>Claims about a failing chunk\<close>

lemma loop_removals:
  "for_output_paths ext pdf n i ps s = (Inr (), s') \<Longrightarrow>
     \<exists>evs. trace s' = trace s @ evs \<and> removals evs = ps"
proof -
  assume a: "for_output_paths ext pdf n i ps s = (Inr (), s')"
  from loop_ok[OF a] obtain cs evs where
    1: "map fst cs = ps" "trace s' = trace s @ evs" "orchestrated evs = chunks_events pdf n i cs"
    by blast
  have "removals (orchestrated evs) = map fst cs" by (simp only: 1(3) chunks_events_removals)
  with 1(1) have "removals evs = ps" by simp
  with 1(2) show ?thesis by blast
qed

lemma removals_Cons [simp]: "removals (e # evs) = removed e @ removals evs"
  by (simp add: removals_def)

lemma removals_Nil [simp]: "removals [] = []"
  by (simp add: removals_def)

lemma removals_handler [simp]: "list_all by_handler evs \<Longrightarrow> removals evs = []"
proof (induction evs)
  case Nil
  then show ?case by simp
next
  case (Cons e evs)
  then show ?case by (cases e) auto
qed

lemma synthesis_removes_nothing:
  "bind (logging_external (GTTS tx) (gTTS ext tx)) (\<lambda>_.
     bind (external (ConstructFilename pdf ''tts_ps'') (construct_filename ext pdf ''tts_ps''))
       (\<lambda>output_file.
     logging_external (Save tx output_file) (save ext tx output_file))) s2 = (r, s3) \<Longrightarrow>
   \<exists>evs. trace s3 = trace s2 @ evs \<and> removals evs = []"
  by (cases r) (auto simp: step_iffs)

text \<open>
  Claim C10. Let the chunks before chunk \<open>p\<close> complete and the file of \<open>p\<close> be read. When
  gTTS, the filename construction or the save then raises for \<open>p\<close>, the loop ends with that
  exception; the files removed in the run are exactly those of the chunks before \<open>p\<close>, so
  that neither the file of \<open>p\<close> nor the file of any later chunk is removed, and what the
  \<^verbatim>\<open>except\<close> clause and the end of \<^verbatim>\<open>convert\<close> add, the error message and the signal that
  hides the progress bar, removes nothing.
\<close>

theorem failed_chunk_leaves_files:
  assumes "for_output_paths ext pdf n 0 ps1 s = (Inr (), s1)"
    and "open_read ext p (world s1) = (Inr tx, w)"
    and "bind (logging_external (GTTS tx) (gTTS ext tx)) (\<lambda>_.
         bind (external (ConstructFilename pdf ''tts_ps'') (construct_filename ext pdf ''tts_ps''))
           (\<lambda>output_file.
         logging_external (Save tx output_file) (save ext tx output_file)))
           (s1\<lparr>world := w,
               trace := trace s1 @
                 [Emit (RevisePbLabel (''TTS Progress ('' @ str_nat (length ps1 + 1) @ ''/'' @
                                       str_nat n @ ''):'')),
                  Call (OpenRead p)]\<rparr>)
         = (Inl e, s3)"
  shows "for_output_paths ext pdf n 0 (ps1 @ p # ps2) s = (Inl e, s3) \<and>
         (\<exists>evs. trace s3 = trace s @ evs \<and> removals evs = ps1 \<and>
                removals (evs @ [Emit (OpMsgs (error_msg pdf e)), Emit (ViewPb False)]) = ps1)"
proof -
  from loop_removals[OF assms(1)] obtain evs1 where
    1: "trace s1 = trace s @ evs1" "removals evs1 = ps1" by blast
  have b: "loop_body ext pdf n (length ps1 + 1) p s1 = (Inl e, s3)"
    using assms(2,3)
    by (auto simp: loop_body_def bind_def emit_signal_def external_def split: prod.splits sum.splits)
  from synthesis_removes_nothing[OF assms(3)] obtain evs2 where
    2: "trace s3 = trace s1 @ evs2" "removals evs2 = []"
    by auto
  have l: "for_output_paths ext pdf n 0 (ps1 @ p # ps2) s = (Inl e, s3)"
    using b by (simp add: loop_append assms(1))
  have "trace s3 = trace s @ (evs1 @ evs2) \<and> removals (evs1 @ evs2) = ps1 \<and>
        removals ((evs1 @ evs2) @ [Emit (OpMsgs (error_msg pdf e)), Emit (ViewPb False)]) = ps1"
    using 1 2 by simp
  then have "\<exists>evs. trace s3 = trace s @ evs \<and> removals evs = ps1 \<and>
                removals (evs @ [Emit (OpMsgs (error_msg pdf e)), Emit (ViewPb False)]) = ps1"
    by (intro exI)
  with l show ?thesis by simp
qed

theorem failed_chunk_leaves_files_witness:
  "fst (for_output_paths (stub True True) ''a.pdf'' 2 0 [''c1''] (entered ''a.pdf'' start)) = Inr () \<and>
   open_read (stub True True) ''c2'' () = (Inr ''c2'', ()) \<and>
   fst (for_output_paths (stub True True) ''a.pdf'' 2 0 ([''c1''] @ ''c2'' # [])
          (entered ''a.pdf'' start)) = Inl (Exception ''no connection'') \<and>
   removals (trace (snd (for_output_paths (stub True True) ''a.pdf'' 2 0 ([''c1''] @ ''c2'' # [])
          (entered ''a.pdf'' start)))) = [''c1'']"
proof -
  define s1 :: "unit state" where "s1 =
    \<lparr>world = (), handlers = [SharedState],
     trace = [Emit (OpMsgs ''Converting a.pdf''), Emit (RevisePbLabel ''TTS Progress:''),
       Emit (ViewPb True),
       Emit (RevisePbLabel ''TTS Progress (1/2):''), Call (OpenRead ''c1''), Call (GTTS ''c1''),
       Call (ConstructFilename ''a.pdf'' ''tts_ps''), Call (Save ''c1'' ''a.pdf.tts_ps''),
       HandlerEmit (UpdatePb (Fin 50)), HandlerEmit (UpdatePb (Fin 100)),
       Emit (OpMsgs ''Conversion 1/2 complete. Output: a.pdf.tts_ps''),
       Emit (UpdatePb (Fin 0)), Call (Remove ''c1'')]\<rparr>"
  define s3 :: "unit state" where "s3 =
    \<lparr>world = (),
     handlers = [\<lparr>progress = 2, total_parts = 2, progress_percentage = Fin 100\<rparr>],
     trace = trace s1 @
       [Emit (RevisePbLabel ''TTS Progress (2/2):''), Call (OpenRead ''c2''), Call (GTTS ''c2''),
        Call (ConstructFilename ''a.pdf'' ''tts_ps''), Call (Save ''c2'' ''a.pdf.tts_ps''),
        HandlerEmit (UpdatePb (Fin 50)), HandlerEmit (UpdatePb (Fin 100))]\<rparr>"
  have h1: "for_output_paths (stub True True) ''a.pdf'' 2 0 [''c1''] (entered ''a.pdf'' start)
              = (Inr (), s1)"
    by (simp add: s1_def run_eval handler_eval SharedState_def str_nat_values entered_def)
  have h2: "open_read (stub True True) ''c2'' (world s1) = (Inr ''c2'', ())"
    by (simp add: stub_def)
  have h3: "bind (logging_external (GTTS ''c2'') (gTTS (stub True True) ''c2'')) (\<lambda>_.
         bind (external (ConstructFilename ''a.pdf'' ''tts_ps'')
                 (construct_filename (stub True True) ''a.pdf'' ''tts_ps''))
           (\<lambda>output_file.
         logging_external (Save ''c2'' output_file) (save (stub True True) ''c2'' output_file)))
           (s1\<lparr>world := (),
               trace := trace s1 @
                 [Emit (RevisePbLabel (''TTS Progress ('' @ str_nat (length [''c1''] + 1) @ ''/'' @
                                       str_nat 2 @ ''):'')),
                  Call (OpenRead ''c2'')]\<rparr>)
         = (Inl (Exception ''no connection''), s3)"
    by (simp add: s1_def s3_def run_eval handler_eval SharedState_def str_nat_values)
  from failed_chunk_leaves_files[OF h1 h2 h3, of "[]"] obtain evs where
    l: "for_output_paths (stub True True) ''a.pdf'' 2 0 ([''c1''] @ ''c2'' # [])
          (entered ''a.pdf'' start) = (Inl (Exception ''no connection''), s3)" and
    t: "trace s3 = trace (entered ''a.pdf'' start) @ evs" and r: "removals evs = [''c1'']"
    by blast
  have "removals (trace (entered ''a.pdf'' start)) = []"
    by (simp add: entered_def start_def)
  with t r have "removals (trace s3) = [''c1'']" by simp
  with l h1 h2 show ?thesis by (simp add: s1_def)
qed

section \<open>Claims about the output filename\<close>

lemma constructions_quiet:
  "list_all (quiet pdf) evs \<Longrightarrow> set (constructions evs) \<subseteq> {(pdf, ''tts_ps'')}"
proof (induction evs)
  case Nil
  then show ?case by (simp add: constructions_def)
next
  case (Cons e evs)
  then have q: "quiet pdf e" and r: "set (constructions evs) \<subseteq> {(pdf, ''tts_ps'')}" by simp_all
  have "set (constructed e) \<subseteq> {(pdf, ''tts_ps'')}"
  proof (cases e)
    case (Call c)
    with q show ?thesis by (cases c) simp_all
  qed simp_all
  with r show ?case by (simp add: constructions_def)
qed

lemma loop_body_index:
  "fst (loop_body ext pdf n i p s) = fst (loop_body ext pdf m j p s) \<and>
   filter is_call (trace (snd (loop_body ext pdf n i p s))) =
     filter is_call (trace (snd (loop_body ext pdf m j p s))) \<and>
   world (snd (loop_body ext pdf n i p s)) = world (snd (loop_body ext pdf m j p s)) \<and>
   handlers (snd (loop_body ext pdf n i p s)) = handlers (snd (loop_body ext pdf m j p s))"
  by (simp add: loop_body_def bind_def emit_signal_def external_def logging_external_def
        reset_shared_state_def split: prod.split sum.split)

lemma stub_split_run:
  "try_body (stub True False) ''a.pdf'' (entered ''a.pdf'' start) =
     (Inr (), \<lparr>world = (), handlers = [SharedState],
       trace = [Emit (OpMsgs ''Converting a.pdf''), Emit (RevisePbLabel ''TTS Progress:''),
         Emit (ViewPb True), Call (CleanText ''a.pdf''),
         Call (TtsWordCount ''some text'' ''/pdfp/temp/tts-tempfile.txt''),
         Emit (RevisePbLabel ''TTS Progress (1/2):''), Call (OpenRead ''c1''), Call (GTTS ''c1''),
         Call (ConstructFilename ''a.pdf'' ''tts_ps''), Call (Save ''c1'' ''a.pdf.tts_ps''),
         HandlerEmit (UpdatePb (Fin 50)), HandlerEmit (UpdatePb (Fin 100)),
         Emit (OpMsgs ''Conversion 1/2 complete. Output: a.pdf.tts_ps''),
         Emit (UpdatePb (Fin 0)), Call (Remove ''c1''),
         Emit (RevisePbLabel ''TTS Progress (2/2):''), Call (OpenRead ''c2''), Call (GTTS ''c2''),
         Call (ConstructFilename ''a.pdf'' ''tts_ps''), Call (Save ''c2'' ''a.pdf.tts_ps''),
         HandlerEmit (UpdatePb (Fin 50)), HandlerEmit (UpdatePb (Fin 100)),
         Emit (OpMsgs ''Conversion 2/2 complete. Output: a.pdf.tts_ps''),
         Emit (UpdatePb (Fin 0)), Call (Remove ''c2'')]\<rparr>)"
  by (simp add: run_eval handler_eval SharedState_def str_nat_values entered_def)

text \<open>
  Claim C9. In the \<^verbatim>\<open>try\<close> block, with or without splitting and whatever its outcome,
  every call of the filename constructor has the source path and the tag \<^verbatim>\<open>tts_ps\<close> as
  its arguments. The chunk index is not among them: the body of the loop for a chunk makes
  the same calls with the same arguments, among them the path it saves to, has the same
  outcome and leaves the same world and handlers, whatever the index \<open>i\<close> and the count \<open>n\<close>
  it is run with.
\<close>

theorem filename_independent_of_index:
  "(\<exists>evs. trace (snd (try_body ext pdf s)) = trace s @ evs \<and>
          set (constructions evs) \<subseteq> {(pdf, ''tts_ps'')}) \<and>
   fst (loop_body ext pdf n i p s0) = fst (loop_body ext pdf m j p s0) \<and>
   filter is_call (trace (snd (loop_body ext pdf n i p s0))) =
     filter is_call (trace (snd (loop_body ext pdf m j p s0))) \<and>
   world (snd (loop_body ext pdf n i p s0)) = world (snd (loop_body ext pdf m j p s0)) \<and>
   handlers (snd (loop_body ext pdf n i p s0)) = handlers (snd (loop_body ext pdf m j p s0))"
proof -
  obtain r s' where t: "try_body ext pdf s = (r, s')" by (cases "try_body ext pdf s") simp
  from try_body_quiet[OF t] obtain evs where
    "trace s' = trace s @ evs" "list_all (quiet pdf) evs" by blast
  then have "trace (snd (try_body ext pdf s)) = trace s @ evs \<and>
             set (constructions evs) \<subseteq> {(pdf, ''tts_ps'')}"
    using t by (simp add: constructions_quiet)
  then have "\<exists>evs. trace (snd (try_body ext pdf s)) = trace s @ evs \<and>
          set (constructions evs) \<subseteq> {(pdf, ''tts_ps'')}" by (intro exI)
  with loop_body_index[of ext pdf n i p s0 m j] show ?thesis by simp
qed

theorem filename_independent_of_index_witness:
  "constructions (trace (snd (try_body (stub True False) ''a.pdf'' (entered ''a.pdf'' start)))) =
     [(''a.pdf'', ''tts_ps''), (''a.pdf'', ''tts_ps'')] \<and>
   filter is_call (trace (snd (loop_body (stub True False) ''a.pdf'' 2 1 ''c1'' start))) =
     [Call (OpenRead ''c1''), Call (GTTS ''c1''), Call (ConstructFilename ''a.pdf'' ''tts_ps''),
      Call (Save ''c1'' ''a.pdf.tts_ps''), Call (Remove ''c1'')] \<and>
   filter is_call (trace (snd (loop_body (stub True False) ''a.pdf'' 2 2 ''c1'' start))) =
     [Call (OpenRead ''c1''), Call (GTTS ''c1''), Call (ConstructFilename ''a.pdf'' ''tts_ps''),
      Call (Save ''c1'' ''a.pdf.tts_ps''), Call (Remove ''c1'')]"
proof -
  have 1: "constructions (trace (snd (try_body (stub True False) ''a.pdf''
             (entered ''a.pdf'' start)))) = [(''a.pdf'', ''tts_ps''), (''a.pdf'', ''tts_ps'')]"
    by (simp add: stub_split_run constructions_def)
  have 2: "filter is_call (trace (snd (loop_body (stub True False) ''a.pdf'' 2 1 ''c1'' start))) =
     [Call (OpenRead ''c1''), Call (GTTS ''c1''), Call (ConstructFilename ''a.pdf'' ''tts_ps''),
      Call (Save ''c1'' ''a.pdf.tts_ps''), Call (Remove ''c1'')]"
    by (simp add: run_eval handler_eval SharedState_def str_nat_values)
  from filename_independent_of_index[of "stub True False" "''a.pdf''" start 2 1 "''c1''" start 2 2]
  have "filter is_call (trace (snd (loop_body (stub True False) ''a.pdf'' 2 1 ''c1'' start))) =
        filter is_call (trace (snd (loop_body (stub True False) ''a.pdf'' 2 2 ''c1'' start)))"
    by blast
  with 1 2 show ?thesis by (simp only: simp_thms)
qed

end
